theory Spec2Isabelle
  imports Main "HOL-Library.Word"
begin

section \<open>Data model\<close>

text \<open>
  The server-side group of the mock server: \<^verbatim>\<open>ServerGroup\<close> (the class with the
  constructor, \<^verbatim>\<open>modify\<close>, \<^verbatim>\<open>verifyAccess\<close> and \<^verbatim>\<open>unrollMember\<close>) on top of the abstract
  class \<^verbatim>\<open>Group\<close> of \<^verbatim>\<open>data/group.ts\<close> (the getters \<^verbatim>\<open>changes\<close>, \<^verbatim>\<open>publicParams\<close>,
  \<^verbatim>\<open>state\<close>, and \<^verbatim>\<open>getChangesSince\<close>, \<^verbatim>\<open>getMember\<close>).

  A \<^verbatim>\<open>Uint8Array\<close> or \<^verbatim>\<open>Buffer\<close> is a list of 8-bit words; \<^verbatim>\<open>Buffer.equals\<close> is
  equality of the lists. An optional protobuf field (\<^verbatim>\<open>x?: T | null\<close>) is an
  \<open>option\<close>. A repeated field is a list: the code reads every one of them through
  \<^verbatim>\<open>?? []\<close> or \<^verbatim>\<open>?.\<close>, so that an absent list and an empty one behave alike.
\<close>

type_synonym bytes = "8 word list"

text \<open>
  Exceptions are values. \<^verbatim>\<open>assert.ok\<close>, \<^verbatim>\<open>assert.strictEqual\<close> and \<^verbatim>\<open>assert\<close> raise an
  \<open>AssertionError\<close> with the message given; \<^verbatim>\<open>throw new Error(msg)\<close> is \<open>Error\<close>;
  reading a property of \<^verbatim>\<open>undefined\<close> is \<open>TypeError\<close>; a failure inside the zkgroup
  library (deserialisation or verification) is \<open>LibSignalError\<close>.
\<close>

datatype error =
    AssertionError string
  | Error string
  | TypeError
  | LibSignalError

text \<open>The protobuf enums \<^verbatim>\<open>AccessControl.AccessRequired\<close> (0..4) and \<^verbatim>\<open>Member.Role\<close> (0..2).\<close>

datatype AccessRequired =
    AR_UNKNOWN
  | AR_ANY
  | AR_MEMBER
  | AR_ADMINISTRATOR
  | AR_UNSATISFIABLE

datatype Role =
    Role_UNKNOWN
  | Role_DEFAULT
  | Role_ADMINISTRATOR

text \<open>\<^verbatim>\<open>Proto.IMember\<close>: the fields the code reads or writes.\<close>

record Member =
  userId :: "bytes option"
  role :: "Role option"
  profileKey :: "bytes option"
  presentation :: "bytes option"

text \<open>\<^verbatim>\<open>Proto.IMemberPendingProfileKey\<close>.\<close>

record PendingMember =
  pm_member :: "Member option"
  pm_addedByUserId :: "bytes option"
  pm_timestamp :: "nat option"

text \<open>\<^verbatim>\<open>Proto.IAccessControl\<close>.\<close>

record AccessControl =
  ac_attributes :: "AccessRequired option"
  ac_members :: "AccessRequired option"
  ac_addFromInviteLink :: "AccessRequired option"

text \<open>
  The code compares the entries of the member lists by reference
  (\<^verbatim>\<open>filter(entry => entry !== member)\<close>), so an entry of a list is an object with an
  identity: a pair of an object identity and the object's fields. Two entries with
  equal fields and different identities are different objects.
\<close>

type_synonym 'a obj = "nat \<times> 'a"

text \<open>
  \<^verbatim>\<open>Proto.IGroup\<close>, the snapshot of a group. The fields no line of the two classes
  names (avatar, timers, invite link password, ...) are carried along unchanged by
  the object spreads and are left out.
\<close>

record GroupState =
  publicKey :: "bytes option"
  title :: "bytes option"
  version :: "nat option"
  accessControl :: "AccessControl option"
  members :: "Member obj list"
  membersPendingProfileKey :: "PendingMember obj list"

text \<open>
  \<^verbatim>\<open>Proto.GroupChange.IActions\<close>. An element of \<open>deleteMembers\<close> and of
  \<open>deletePendingMembers\<close> is the \<^verbatim>\<open>deletedUserId\<close> of the action, an element of
  \<open>addPendingMembers\<close> its \<^verbatim>\<open>added\<close>: the only field these actions have.
\<close>

record ModifyTitleAction =
  mt_title :: "bytes option"

record PromotePendingMemberAction =
  ppm_presentation :: "bytes option"
  ppm_userId :: "bytes option"
  ppm_profileKey :: "bytes option"

record PromotePniAciAction =
  ppa_presentation :: "bytes option"
  ppa_userId :: "bytes option"
  ppa_pni :: "bytes option"
  ppa_profileKey :: "bytes option"

record Actions =
  sourceUuid :: "bytes option"
  act_version :: "nat option"
  modifyTitle :: "ModifyTitleAction option"
  deleteMembers :: "bytes option list"
  addPendingMembers :: "PendingMember option list"
  deletePendingMembers :: "bytes option list"
  promotePendingMembers :: "PromotePendingMemberAction list"
  promoteMembersPendingPniAciProfileKey :: "PromotePniAciAction list"

text \<open>\<^verbatim>\<open>Proto.IGroupChange\<close>, \<^verbatim>\<open>Proto.IGroupChangeState\<close> and \<^verbatim>\<open>Proto.IGroupChanges\<close>.\<close>

record GroupChange =
  actions :: "bytes"
  changeEpoch :: "nat"
  serverSignature :: "bytes option"

record GroupChangeState =
  groupChange :: "GroupChange option"
  groupState :: "GroupState option"

record GroupChanges =
  groupChanges :: "GroupChangeState list option"

text \<open>
  The instance: the two protected fields of \<^verbatim>\<open>Group\<close>. \<open>nextOid\<close> is not a field of
  the class: it is the allocator of the object identities above, the least identity
  no object has been given yet.
\<close>

record ServerGroup =
  privChanges :: "GroupChanges option"
  privPublicParams :: "bytes option"
  nextOid :: "nat"

text \<open>\<^verbatim>\<open>ModifyGroupResult\<close>.\<close>

datatype ModifyGroupResult =
    Conflict
  | Applied GroupChange

text \<open>
  The collaborators of \<^verbatim>\<open>@signalapp/libsignal-client/zkgroup\<close> and of the compiled
  protobuf schema, which are not part of the repository, as parameters:
  \<^item> \<open>validGroupPublicParams b\<close>: \<^verbatim>\<open>new GroupPublicParams(b)\<close> does not throw;
  \<^item> \<open>validUuidCiphertext b\<close>: \<^verbatim>\<open>new UuidCiphertext(b)\<close> does not throw;
  \<^item> \<open>validPresentation b\<close>: \<^verbatim>\<open>new ProfileKeyCredentialPresentation(b)\<close> does not throw;
  \<^item> \<open>verifyProfileKeyCredentialPresentation pp b\<close>: the method of \<^verbatim>\<open>profileOps\<close> of
    that name does not throw;
  \<^item> \<open>getUuidCiphertext b\<close>, \<open>getProfileKeyCiphertext b\<close>: the serialised ciphertexts
    of the presentation;
  \<^item> \<open>encodeActions\<close>: \<^verbatim>\<open>Proto.GroupChange.Actions.encode(a).finish()\<close>;
  \<^item> \<open>zkSign\<close>: \<^verbatim>\<open>zkSecret.sign(b).serialize()\<close>.
\<close>

record Collaborators =
  validGroupPublicParams :: "bytes \<Rightarrow> bool"
  validUuidCiphertext :: "bytes \<Rightarrow> bool"
  validPresentation :: "bytes \<Rightarrow> bool"
  verifyProfileKeyCredentialPresentation :: "bytes \<Rightarrow> bytes \<Rightarrow> bool"
  getUuidCiphertext :: "bytes \<Rightarrow> bytes"
  getProfileKeyCiphertext :: "bytes \<Rightarrow> bytes"
  encodeActions :: "Actions \<Rightarrow> bytes"
  zkSign :: "bytes \<Rightarrow> bytes"

section \<open>The class Group\<close>

definition bindE :: "error + 'a \<Rightarrow> ('a \<Rightarrow> error + 'b) \<Rightarrow> error + 'b" where
  "bindE m f = (case m of Inl e \<Rightarrow> Inl e | Inr x \<Rightarrow> f x)"

definition assert_ok :: "bool \<Rightarrow> string \<Rightarrow> error + unit" where
  "assert_ok b msg = (if b then Inr () else Inl (AssertionError msg))"

text \<open>The getter \<^verbatim>\<open>changes\<close>.\<close>

definition changes :: "ServerGroup \<Rightarrow> error + GroupChanges" where
  "changes g =
     (case privChanges g of
        None \<Rightarrow> Inl (AssertionError ''Group not initialized'')
      | Some c \<Rightarrow> Inr c)"

text \<open>The getter \<^verbatim>\<open>publicParams\<close>.\<close>

definition publicParams :: "ServerGroup \<Rightarrow> error + bytes" where
  "publicParams g =
     (case privPublicParams g of
        None \<Rightarrow> Inl (AssertionError ''Group not initialized'')
      | Some p \<Rightarrow> Inr p)"

text \<open>
  The getter \<^verbatim>\<open>state\<close>. On an empty array \<^verbatim>\<open>groupChanges[groupChanges.length - 1]\<close> is
  \<^verbatim>\<open>undefined\<close>, and reading \<^verbatim>\<open>.groupState\<close> of it throws a TypeError.
\<close>

definition state :: "ServerGroup \<Rightarrow> error + GroupState" where
  "state g =
     bindE (changes g) (\<lambda>c.
       case groupChanges c of
         None \<Rightarrow> Inl (AssertionError ''Missing group changes in the group state'')
       | Some cs \<Rightarrow>
           if cs = [] then Inl TypeError
           else (case groupState (last cs) of
                   None \<Rightarrow> Inl (AssertionError ''Group must have the last state'')
                 | Some s \<Rightarrow> Inr s))"

text \<open>
  \<^verbatim>\<open>getChangesSince\<close>: \<^verbatim>\<open>Array.prototype.slice(since)\<close> for a natural number \<open>since\<close>.
\<close>

definition getChangesSince :: "ServerGroup \<Rightarrow> nat \<Rightarrow> error + GroupChanges" where
  "getChangesSince g since =
     bindE (changes g) (\<lambda>c. Inr \<lparr>groupChanges = map_option (drop since) (groupChanges c)\<rparr>)"

text \<open>
  \<^verbatim>\<open>getMember\<close>: the first entry of the members of the current state whose
  \<^verbatim>\<open>userId\<close> is present and equal to the bytes asked for.
\<close>

definition getMember :: "ServerGroup \<Rightarrow> bytes \<Rightarrow> error + Member obj option" where
  "getMember g uuidCiphertext =
     bindE (state g) (\<lambda>s.
       Inr (find (\<lambda>entry. case userId (snd entry) of
                             None \<Rightarrow> False
                           | Some u \<Rightarrow> uuidCiphertext = u) (members s)))"

text \<open>
  Modelled from the spec: \<^verbatim>\<open>getPendingMember\<close>, which \<^verbatim>\<open>modify\<close> calls and the class
  \<^verbatim>\<open>Group\<close> of the sources does not define. The specification describes it together
  with \<^verbatim>\<open>getMember\<close>: a linear scan of the current snapshot comparing opaque
  identity bytes for equality, returning "not found" when no match exists. So it is
  \<^verbatim>\<open>getMember\<close> over the pending members, whose identity is the \<^verbatim>\<open>userId\<close> of their
  \<^verbatim>\<open>member\<close>.
\<close>

definition pendingUserId :: "PendingMember \<Rightarrow> bytes option" where
  "pendingUserId p = (case pm_member p of None \<Rightarrow> None | Some m \<Rightarrow> userId m)"

definition getPendingMember :: "ServerGroup \<Rightarrow> bytes \<Rightarrow> error + PendingMember obj option" where
  "getPendingMember g uuidCiphertext =
     bindE (state g) (\<lambda>s.
       Inr (find (\<lambda>entry. case pendingUserId (snd entry) of
                             None \<Rightarrow> False
                           | Some u \<Rightarrow> uuidCiphertext = u) (membersPendingProfileKey s)))"

section \<open>The class ServerGroup\<close>

subsection \<open>Access control\<close>

text \<open>
  \<^verbatim>\<open>verifyAccess\<close>. It returns normally (\<open>Inr ()\<close>) or throws; it assigns nothing.
  A \<^verbatim>\<open>Uint8Array\<close> is truthy whatever its length, so \<^verbatim>\<open>member?.userId && affectedUserId\<close>
  holds when both are present.
\<close>

definition verifyAccess ::
  "string \<Rightarrow> Member option \<Rightarrow> AccessRequired \<Rightarrow> bytes option \<Rightarrow> error + unit" where
  "verifyAccess attribute mem access affectedUserId =
     (if (case mem of
            None \<Rightarrow> False
          | Some m \<Rightarrow>
              (case userId m of
                 None \<Rightarrow> False
               | Some u \<Rightarrow>
                   (case affectedUserId of
                      None \<Rightarrow> False
                    | Some a \<Rightarrow> u = a)))
      then Inr ()
      else (case access of
              AR_ANY \<Rightarrow> Inr ()
            | AR_MEMBER \<Rightarrow>
                assert_ok (mem \<noteq> None) (''Must be a member to access: '' @ attribute)
            | AR_ADMINISTRATOR \<Rightarrow>
                assert_ok
                  ((case mem of None \<Rightarrow> None | Some m \<Rightarrow> role m) = Some Role_ADMINISTRATOR)
                  (''Must be an administrator to modify: '' @ attribute)
            | AR_UNSATISFIABLE \<Rightarrow> Inl (Error (''Unsatisfiable access attribute: '' @ attribute))
            | AR_UNKNOWN \<Rightarrow> Inl (Error (''Unknown access for attribute: '' @ attribute))))"

text \<open>\<^verbatim>\<open>accessControl?.field ?? AccessRequired.UNKNOWN\<close>.\<close>

definition requiredAccess ::
  "AccessControl option \<Rightarrow> (AccessControl \<Rightarrow> AccessRequired option) \<Rightarrow> AccessRequired" where
  "requiredAccess ac field =
     (case ac of
        None \<Rightarrow> AR_UNKNOWN
      | Some a \<Rightarrow> (case field a of None \<Rightarrow> AR_UNKNOWN | Some r \<Rightarrow> r))"

subsection \<open>Credential presentations\<close>

text \<open>
  The two lines every use of a presentation starts with:
  \<^verbatim>\<open>new ProfileKeyCredentialPresentation(Buffer.from(presentation))\<close> and
  \<^verbatim>\<open>this.profileOps.verifyProfileKeyCredentialPresentation(this.publicParams, presentationFFI)\<close>.
\<close>

definition verifiedPresentation :: "Collaborators \<Rightarrow> ServerGroup \<Rightarrow> bytes \<Rightarrow> error + unit" where
  "verifiedPresentation ops g pres =
     (if \<not> validPresentation ops pres then Inl LibSignalError
      else bindE (publicParams g) (\<lambda>pp.
        if verifyProfileKeyCredentialPresentation ops pp pres then Inr ()
        else Inl LibSignalError))"

text \<open>\<^verbatim>\<open>unrollMember\<close>.\<close>

definition unrollMember :: "Collaborators \<Rightarrow> ServerGroup \<Rightarrow> Member \<Rightarrow> error + Member" where
  "unrollMember ops g m =
     (case role m of
        None \<Rightarrow> Inl (AssertionError ''Group member role is undefined'')
      | Some r \<Rightarrow>
          (case presentation m of
             None \<Rightarrow> Inl (AssertionError ''Group member presentation is undefined'')
           | Some pres \<Rightarrow>
               bindE (verifiedPresentation ops g pres) (\<lambda>_.
                 Inr \<lparr>userId = Some (getUuidCiphertext ops pres),
                      role = Some r,
                      profileKey = Some (getProfileKeyCiphertext ops pres),
                      presentation = None\<rparr>)))"

subsection \<open>The constructor\<close>

text \<open>
  \<^verbatim>\<open>state.members.map((member) => this.unrollMember(member))\<close>: the first member that
  throws ends the map. Each result is a new object; \<open>n\<close> is the next free identity.
\<close>

fun unrollMembers ::
  "Collaborators \<Rightarrow> ServerGroup \<Rightarrow> nat \<Rightarrow> Member obj list \<Rightarrow> error + Member obj list" where
  "unrollMembers ops g n [] = Inr []"
| "unrollMembers ops g n (m # ms) =
     (case unrollMember ops g (snd m) of
        Inl e \<Rightarrow> Inl e
      | Inr m' \<Rightarrow>
          (case unrollMembers ops g (Suc n) ms of
             Inl e \<Rightarrow> Inl e
           | Inr ms' \<Rightarrow> Inr ((n, m') # ms')))"

text \<open>An identity above those of all the entries the caller's state holds.\<close>

definition freshOid :: "GroupState \<Rightarrow> nat" where
  "freshOid st =
     Suc (fold max (map fst (members st) @ map fst (membersPendingProfileKey st)) 0)"

text \<open>
  The constructor of \<^verbatim>\<open>ServerGroup\<close>: \<open>Inl\<close> when it throws, and then there is no
  instance; \<open>Inr\<close> the instance otherwise. \<^verbatim>\<open>typeof x === 'number'\<close> on an optional enum
  field is that the field is present.
\<close>

definition construct :: "Collaborators \<Rightarrow> GroupState \<Rightarrow> error + ServerGroup" where
  "construct ops st =
     (case publicKey st of
        None \<Rightarrow> Inl (AssertionError ''Group public key must be present'')
      | Some pk \<Rightarrow>
          if version st \<noteq> Some 0 then Inl (AssertionError ''Initial group version must be zero'')
          else (case accessControl st of
            None \<Rightarrow> Inl (AssertionError ''Group access control must be present'')
          | Some ac \<Rightarrow>
              if \<not> (ac_attributes ac \<noteq> None \<and> ac_members ac \<noteq> None \<and>
                    ac_addFromInviteLink ac \<noteq> None)
              then Inl (AssertionError ''Group access control must be configured'')
              else if \<not> (members st \<noteq> [])
              then Inl (AssertionError ''Group members must be present'')
              else if \<not> validGroupPublicParams ops pk then Inl LibSignalError
              else
                (let g = \<lparr>privChanges = None, privPublicParams = Some pk,
                          nextOid = freshOid st\<rparr>
                 in bindE (unrollMembers ops g (freshOid st) (members st)) (\<lambda>ms.
                      Inr (g\<lparr>privChanges :=
                               Some \<lparr>groupChanges =
                                 Some [\<lparr>groupChange = None,
                                        groupState = Some (st\<lparr>members := ms\<rparr>)\<rparr>]\<rparr>,
                             nextOid := freshOid st + length ms\<rparr>)))))"

subsection \<open>modify\<close>

text \<open>
  The local variables of \<^verbatim>\<open>modify\<close> that the sub-actions assign: the working copy
  \<^verbatim>\<open>newState\<close>, the accumulator \<^verbatim>\<open>appliedActions\<close> and \<^verbatim>\<open>changeEpoch\<close>; \<open>w_nextOid\<close> is
  the allocator, advanced by every object the call creates.
\<close>

record Work =
  newState :: "GroupState"
  appliedActions :: "Actions"
  w_changeEpoch :: "nat"
  w_nextOid :: "nat"

text \<open>A \<^verbatim>\<open>for ... of\<close> loop whose body may throw: the first throw ends the loop.\<close>

fun foldE :: "('a \<Rightarrow> 'w \<Rightarrow> error + 'w) \<Rightarrow> 'a list \<Rightarrow> 'w \<Rightarrow> error + 'w" where
  "foldE f [] w = Inr w"
| "foldE f (x # xs) w = (case f x w of Inl e \<Rightarrow> Inl e | Inr w' \<Rightarrow> foldE f xs w')"

text \<open>\<^verbatim>\<open>if (actions.modifyTitle) { ... }\<close>.\<close>

definition modifyTitle_step ::
  "Member option \<Rightarrow> AccessControl option \<Rightarrow> ModifyTitleAction option \<Rightarrow> Work \<Rightarrow> error + Work" where
  "modifyTitle_step authMember ac mt w =
     (case mt of
        None \<Rightarrow> Inr w
      | Some t \<Rightarrow>
          bindE (verifyAccess ''title'' authMember (requiredAccess ac ac_attributes) None) (\<lambda>_.
            Inr (w\<lparr>appliedActions := (appliedActions w)\<lparr>modifyTitle := Some t\<rparr>,
                   newState := (newState w)\<lparr>title := mt_title t\<rparr>\<rparr>)))"

text \<open>
  The body of the loop over \<^verbatim>\<open>actions.deleteMembers\<close>. The member is looked up with
  \<^verbatim>\<open>this.getMember\<close>, that is in \<^verbatim>\<open>this.state\<close>, and taken out of \<^verbatim>\<open>newState.members\<close> by
  reference.
\<close>

definition deleteMember_step ::
  "Collaborators \<Rightarrow> ServerGroup \<Rightarrow> Member option \<Rightarrow> AccessControl option \<Rightarrow>
   bytes option \<Rightarrow> Work \<Rightarrow> error + Work" where
  "deleteMember_step ops g authMember ac d w =
     (case d of
        None \<Rightarrow> Inl (AssertionError ''Missing deletedUserId'')
      | Some deletedUserId \<Rightarrow>
          bindE (verifyAccess ''members'' authMember (requiredAccess ac ac_members)
                   (Some deletedUserId)) (\<lambda>_.
          if \<not> validUuidCiphertext ops deletedUserId then Inl LibSignalError
          else bindE (getMember g deletedUserId) (\<lambda>found.
            case found of
              None \<Rightarrow> Inl (AssertionError ''Pending member not found for deletion'')
            | Some mem \<Rightarrow>
                Inr (w\<lparr>newState := (newState w)
                          \<lparr>members := filter (\<lambda>entry. fst entry \<noteq> fst mem)
                                        (members (newState w))\<rparr>,
                       appliedActions := (appliedActions w)
                          \<lparr>deleteMembers := deleteMembers (appliedActions w)
                                              @ [Some deletedUserId]\<rparr>\<rparr>))))"

text \<open>
  The body of the loop over \<^verbatim>\<open>actions.addPendingMembers\<close>. \<^verbatim>\<open>assert.ok(role)\<close> fails on
  an absent role and on the role 0 (\<open>Role_UNKNOWN\<close>), which is falsy.
\<close>

definition addPendingMember_step ::
  "Member option \<Rightarrow> AccessControl option \<Rightarrow> bytes \<Rightarrow> nat \<Rightarrow>
   PendingMember option \<Rightarrow> Work \<Rightarrow> error + Work" where
  "addPendingMember_step authMember ac sourceACI now a w =
     (case a of
        None \<Rightarrow> Inl (AssertionError ''Missing addPendingMember.added'')
      | Some added \<Rightarrow>
          (case pm_member added of
             None \<Rightarrow> Inl (AssertionError ''Missing addPendingMembers.added.member'')
           | Some m \<Rightarrow>
               (case userId m of
                  None \<Rightarrow> Inl (AssertionError ''Missing addPendingMembers.added.member.userId'')
                | Some uid \<Rightarrow>
                    if role m = None \<or> role m = Some Role_UNKNOWN
                    then Inl (AssertionError ''Missing addPendingMembers.added.member.role'')
                    else
                      bindE (verifyAccess ''pendingMembers'' authMember
                               (requiredAccess ac ac_members) None) (\<lambda>_.
                        let newPendingMember =
                              \<lparr>pm_member = Some \<lparr>userId = Some uid, role = role m,
                                                 profileKey = None, presentation = None\<rparr>,
                               pm_addedByUserId = Some sourceACI,
                               pm_timestamp = Some now\<rparr>
                        in Inr (w\<lparr>newState := (newState w)
                                    \<lparr>membersPendingProfileKey :=
                                       membersPendingProfileKey (newState w)
                                       @ [(w_nextOid w, newPendingMember)]\<rparr>,
                                  appliedActions := (appliedActions w)
                                    \<lparr>addPendingMembers := addPendingMembers (appliedActions w)
                                                            @ [Some newPendingMember]\<rparr>,
                                  w_nextOid := Suc (w_nextOid w)\<rparr>)))))"

text \<open>
  The body of the loop over \<^verbatim>\<open>actions.deletePendingMembers\<close>. The bytes are those of
  \<^verbatim>\<open>sourceACI\<close> or of \<^verbatim>\<open>sourcePNI\<close> when the lookup is reached, so that
  \<^verbatim>\<open>new UuidCiphertext\<close> on them does not throw.
\<close>

definition deletePendingMember_step ::
  "ServerGroup \<Rightarrow> bytes \<Rightarrow> bytes \<Rightarrow> bytes option \<Rightarrow> Work \<Rightarrow> error + Work" where
  "deletePendingMember_step g sourceACI sourcePNI d w =
     (case d of
        None \<Rightarrow> Inl (AssertionError ''Missing deletedUserId'')
      | Some deletedUserId \<Rightarrow>
          bindE (assert_ok (deletedUserId = sourceACI \<or> deletedUserId = sourcePNI)
                   ''Not a pending member'') (\<lambda>_.
          bindE (getPendingMember g deletedUserId) (\<lambda>found.
            case found of
              None \<Rightarrow> Inl (AssertionError ''Pending member not found for deletion'')
            | Some pendingMember \<Rightarrow>
                Inr (w\<lparr>newState := (newState w)
                          \<lparr>membersPendingProfileKey :=
                             filter (\<lambda>entry. fst entry \<noteq> fst pendingMember)
                               (membersPendingProfileKey (newState w))\<rparr>,
                       appliedActions := (appliedActions w)
                          \<lparr>deletePendingMembers := deletePendingMembers (appliedActions w)
                                                     @ [Some deletedUserId]\<rparr>\<rparr>))))"

text \<open>The body of the loop over \<^verbatim>\<open>actions.promotePendingMembers\<close>.\<close>

definition promotePendingMember_step ::
  "Collaborators \<Rightarrow> ServerGroup \<Rightarrow> bytes \<Rightarrow> PromotePendingMemberAction \<Rightarrow> Work \<Rightarrow>
   error + Work" where
  "promotePendingMember_step ops g sourceACI a w =
     (case ppm_presentation a of
        None \<Rightarrow> Inl (AssertionError ''Missing presentation in promotePendingMembers'')
      | Some pres \<Rightarrow>
          bindE (verifiedPresentation ops g pres) (\<lambda>_.
          bindE (assert_ok (getUuidCiphertext ops pres = sourceACI)
                   ''Not a pending member'') (\<lambda>_.
          bindE (getPendingMember g (getUuidCiphertext ops pres)) (\<lambda>found.
            case found of
              None \<Rightarrow> Inl (AssertionError ''No pending member'')
            | Some pendingMember \<Rightarrow>
                bindE (getMember g (getUuidCiphertext ops pres)) (\<lambda>active.
                bindE (assert_ok (active = None) ''Member is both pending and active'') (\<lambda>_.
                  let uid = getUuidCiphertext ops pres;
                      pk = getProfileKeyCiphertext ops pres
                  in Inr (w\<lparr>newState := (newState w)
                              \<lparr>membersPendingProfileKey :=
                                 filter (\<lambda>entry. fst entry \<noteq> fst pendingMember)
                                   (membersPendingProfileKey (newState w)),
                               members := members (newState w)
                                 @ [(w_nextOid w,
                                     \<lparr>userId = Some uid, role = Some Role_DEFAULT,
                                      profileKey = Some pk, presentation = None\<rparr>)]\<rparr>,
                            appliedActions := (appliedActions w)
                              \<lparr>promotePendingMembers :=
                                 promotePendingMembers (appliedActions w)
                                 @ [\<lparr>ppm_presentation = None, ppm_userId = Some uid,
                                      ppm_profileKey = Some pk\<rparr>]\<rparr>,
                            w_nextOid := Suc (w_nextOid w)\<rparr>)))))))"

text \<open>The body of the loop over \<^verbatim>\<open>actions.promoteMembersPendingPniAciProfileKey\<close>.\<close>

definition promotePniAci_step ::
  "Collaborators \<Rightarrow> ServerGroup \<Rightarrow> bytes \<Rightarrow> bytes \<Rightarrow> PromotePniAciAction \<Rightarrow> Work \<Rightarrow>
   error + Work" where
  "promotePniAci_step ops g sourceACI sourcePNI a w =
     (case ppa_presentation a of
        None \<Rightarrow>
          Inl (AssertionError ''Missing presentation in promoteMembersPendingPniAciProfileKey'')
      | Some pres \<Rightarrow>
          bindE (verifiedPresentation ops g pres) (\<lambda>_.
          let aci = getUuidCiphertext ops pres;
              pni = sourcePNI;
              pk = getProfileKeyCiphertext ops pres
          in
          bindE (assert_ok (aci = sourceACI) ''Not a pending member'') (\<lambda>_.
          bindE (getPendingMember g pni) (\<lambda>found.
            case found of
              None \<Rightarrow> Inl (AssertionError ''No pending pni member'')
            | Some pendingMember \<Rightarrow>
                bindE (getMember g aci) (\<lambda>active.
                bindE (assert_ok (active = None) ''ACI is already a member'') (\<lambda>_.
                  Inr (w\<lparr>newState := (newState w)
                            \<lparr>membersPendingProfileKey :=
                               filter (\<lambda>entry. fst entry \<noteq> fst pendingMember)
                                 (membersPendingProfileKey (newState w)),
                             members := members (newState w)
                               @ [(w_nextOid w,
                                   \<lparr>userId = Some aci, role = Some Role_DEFAULT,
                                    profileKey = Some pk, presentation = None\<rparr>)]\<rparr>,
                         w_changeEpoch := max (w_changeEpoch w) 5,
                         appliedActions := (appliedActions w)
                            \<lparr>sourceUuid := Some sourcePNI,
                             promoteMembersPendingPniAciProfileKey :=
                               promoteMembersPendingPniAciProfileKey (appliedActions w)
                               @ [\<lparr>ppa_presentation = None, ppa_userId = Some aci,
                                    ppa_pni = Some pni, ppa_profileKey = Some pk\<rparr>]\<rparr>,
                         w_nextOid := Suc (w_nextOid w)\<rparr>)))))))"

text \<open>
  Lines 78 to 299 of \<^verbatim>\<open>modify\<close>; \<open>initialWork\<close> is \<^verbatim>\<open>appliedActions\<close>, \<^verbatim>\<open>newState\<close> and
  \<^verbatim>\<open>changeEpoch\<close> as their declarations initialise them. The version is asserted, the working copy is made
  from \<^verbatim>\<open>this.state\<close>, the acting member is looked up, and the sub-actions run in the
  order of the source. \<open>now\<close> is \<^verbatim>\<open>Date.now()\<close>. \<^verbatim>\<open>assert.ok(actions.version)\<close> fails on
  an absent version and on the version 0, which is falsy. Nothing here assigns a
  field of \<^verbatim>\<open>this\<close>.
\<close>

definition initialWork :: "ServerGroup \<Rightarrow> GroupState \<Rightarrow> bytes \<Rightarrow> Actions \<Rightarrow> Work" where
  "initialWork g s sourceACI acts =
     \<lparr>newState = s\<lparr>version := act_version acts\<rparr>,
      appliedActions =
        \<lparr>sourceUuid = Some sourceACI, act_version = act_version acts,
         modifyTitle = None, deleteMembers = [], addPendingMembers = [],
         deletePendingMembers = [], promotePendingMembers = [],
         promoteMembersPendingPniAciProfileKey = []\<rparr>,
      w_changeEpoch = 1,
      w_nextOid = nextOid g\<rparr>"

definition applyActions ::
  "Collaborators \<Rightarrow> ServerGroup \<Rightarrow> bytes \<Rightarrow> bytes \<Rightarrow> Actions \<Rightarrow> nat \<Rightarrow> error + Work" where
  "applyActions ops g sourceACI sourcePNI acts now =
     bindE (assert_ok (act_version acts \<noteq> None \<and> act_version acts \<noteq> Some 0)
              ''Actions should have a new version'') (\<lambda>_.
     bindE (state g) (\<lambda>s.
     bindE (getMember g sourceACI) (\<lambda>auth.
       let w0 = initialWork g s sourceACI acts;
           authMember = map_option snd auth;
           ac = accessControl (newState w0)
       in
       bindE (modifyTitle_step authMember ac (modifyTitle acts) w0) (\<lambda>w1.
       bindE (foldE (deleteMember_step ops g authMember ac) (deleteMembers acts) w1) (\<lambda>w2.
       bindE (foldE (addPendingMember_step authMember ac sourceACI now)
                (addPendingMembers acts) w2) (\<lambda>w3.
       bindE (foldE (deletePendingMember_step g sourceACI sourcePNI)
                (deletePendingMembers acts) w3) (\<lambda>w4.
       bindE (foldE (promotePendingMember_step ops g sourceACI)
                (promotePendingMembers acts) w4) (\<lambda>w5.
       foldE (promotePniAci_step ops g sourceACI sourcePNI)
         (promoteMembersPendingPniAciProfileKey acts) w5))))))))"

text \<open>
  \<^verbatim>\<open>modify\<close>: the result, \<open>Inl\<close> when the call throws, and the instance after the call.
  After the sub-actions (line 301 on) the version is compared, the applied actions
  are encoded and signed, and the new entry is pushed: the one assignment to the
  instance. The allocator moves on with a call that commits only: the objects of a
  call that throws or returns \<open>Conflict\<close> are not reachable from the instance.
\<close>

definition modify ::
  "Collaborators \<Rightarrow> ServerGroup \<Rightarrow> bytes \<Rightarrow> bytes \<Rightarrow> Actions \<Rightarrow> nat \<Rightarrow>
   (error + ModifyGroupResult) \<times> ServerGroup" where
  "modify ops g sourceACI sourcePNI acts now =
     (case applyActions ops g sourceACI sourcePNI acts now of
        Inl e \<Rightarrow> (Inl e, g)
      | Inr w \<Rightarrow>
          (case state g of
             Inl e \<Rightarrow> (Inl e, g)
           | Inr s \<Rightarrow>
               (case version s of
                  None \<Rightarrow> (Inl (AssertionError ''Group must have existing version''), g)
                | Some oldVersion \<Rightarrow>
                    if act_version acts \<noteq> Some (oldVersion + 1) then (Inr Conflict, g)
                    else
                      (let encodedActions = encodeActions ops (appliedActions w);
                           sig = zkSign ops encodedActions;
                           change = \<lparr>actions = encodedActions,
                                     changeEpoch = w_changeEpoch w,
                                     serverSignature = None\<rparr>
                       in case privChanges g of
                            None \<Rightarrow> (Inl (AssertionError ''Must be initialized''), g)
                          | Some c \<Rightarrow>
                              (case groupChanges c of
                                 None \<Rightarrow> (Inl (AssertionError ''Must be initialized''), g)
                               | Some cs \<Rightarrow>
                                   (Inr (Applied (change\<lparr>serverSignature := Some sig\<rparr>)),
                                    g\<lparr>privChanges :=
                                        Some (c\<lparr>groupChanges :=
                                          Some (cs @ [\<lparr>groupChange = Some change,
                                                       groupState = Some (newState w)\<rparr>])\<rparr>),
                                      nextOid := w_nextOid w\<rparr>))))))"

section \<open>Instances and their histories\<close>

text \<open>
  The instances a caller can hold: what the constructor returns, and what any call of
  \<^verbatim>\<open>modify\<close> leaves behind, whatever its result.
\<close>

inductive reachable :: "Collaborators \<Rightarrow> ServerGroup \<Rightarrow> bool" for ops :: Collaborators where
  constructed: "construct ops st = Inr g \<Longrightarrow> reachable ops g"
| modified: "reachable ops g \<Longrightarrow> modify ops g sourceACI sourcePNI acts now = (r, g')
     \<Longrightarrow> reachable ops g'"

text \<open>The identities of the active and of the pending members of a snapshot.\<close>

definition memberIds :: "GroupState \<Rightarrow> bytes list" where
  "memberIds s = List.map_filter (\<lambda>entry. userId (snd entry)) (members s)"

definition pendingIds :: "GroupState \<Rightarrow> bytes list" where
  "pendingIds s =
     List.map_filter (\<lambda>entry. pendingUserId (snd entry)) (membersPendingProfileKey s)"

definition disjointIds :: "GroupState \<Rightarrow> bool" where
  "disjointIds s = (set (memberIds s) \<inter> set (pendingIds s) = {})"

text \<open>
  The presentation of a member of the initial state is present and passes both
  steps of the verification against the public parameters.
\<close>

definition presentationVerifies :: "Collaborators \<Rightarrow> bytes \<Rightarrow> Member \<Rightarrow> bool" where
  "presentationVerifies ops pp m =
     (case presentation m of
        None \<Rightarrow> False
      | Some pres \<Rightarrow> validPresentation ops pres \<and>
                     verifyProfileKeyCredentialPresentation ops pp pres)"

text \<open>The identities a bundle adds as pending members.\<close>

definition addedIds :: "Actions \<Rightarrow> bytes list" where
  "addedIds acts =
     List.map_filter (\<lambda>a. case a of None \<Rightarrow> None | Some p \<Rightarrow> pendingUserId p)
       (addPendingMembers acts)"

text \<open>
  A bundle that keeps the active and the pending members of the snapshot \<open>s\<close> apart:
  every identity it adds as pending is added once and is neither active nor pending
  in \<open>s\<close>; and if it has promotions across identity spaces and no promotion of a
  pending member, then its sender is not pending in \<open>s\<close> and is not added as pending.
\<close>

definition cleanBundle :: "GroupState \<Rightarrow> bytes \<Rightarrow> Actions \<Rightarrow> bool" where
  "cleanBundle s sourceACI acts =
     (distinct (addedIds acts) \<and>
      set (addedIds acts) \<inter> set (memberIds s) = {} \<and>
      set (addedIds acts) \<inter> set (pendingIds s) = {} \<and>
      (promoteMembersPendingPniAciProfileKey acts \<noteq> [] \<and> promotePendingMembers acts = []
         \<longrightarrow> sourceACI \<notin> set (pendingIds s) \<and> sourceACI \<notin> set (addedIds acts)))"

text \<open>
  The instances made by a constructor call whose snapshot has no identity pending
  twice and none both active and pending, and by calls of \<^verbatim>\<open>modify\<close> with such bundles.
\<close>

inductive cleanlyReachable :: "Collaborators \<Rightarrow> ServerGroup \<Rightarrow> bool"
  for ops :: Collaborators where
  clean_constructed:
    "construct ops st = Inr g \<Longrightarrow> state g = Inr s \<Longrightarrow> distinct (pendingIds s)
     \<Longrightarrow> disjointIds s \<Longrightarrow> cleanlyReachable ops g"
| clean_modified:
    "cleanlyReachable ops g \<Longrightarrow> state g = Inr s \<Longrightarrow> cleanBundle s sourceACI acts
     \<Longrightarrow> modify ops g sourceACI sourcePNI acts now = (r, g')
     \<Longrightarrow> cleanlyReachable ops g'"

text \<open>
  The snapshot a committing call of \<^verbatim>\<open>modify\<close> leaves, written out from the committed
  snapshot \<open>s\<close> of the instance \<open>g\<close> and from the bundle: what the sub-actions, one
  after the other, make of the working copy.
  \<^item> \<open>foundMemberOids\<close>, \<open>foundPendingOids\<close>: the entries that \<^verbatim>\<open>getMember\<close> and
    \<^verbatim>\<open>getPendingMember\<close> find for the identities listed, in the committed snapshot;
  \<^item> \<open>newPendingEntries\<close>: the entries the add-pending-member sub-actions make;
  \<^item> \<open>newMemberEntries\<close>: the members the promotions make of their presentations.
\<close>

definition foundMemberOids :: "ServerGroup \<Rightarrow> bytes option list \<Rightarrow> nat list" where
  "foundMemberOids g ds =
     List.map_filter
       (\<lambda>d. case d of
               None \<Rightarrow> None
             | Some u \<Rightarrow> (case getMember g u of Inl e \<Rightarrow> None | Inr found \<Rightarrow> map_option fst found))
       ds"

definition foundPendingOids :: "ServerGroup \<Rightarrow> bytes option list \<Rightarrow> nat list" where
  "foundPendingOids g ds =
     List.map_filter
       (\<lambda>d. case d of
               None \<Rightarrow> None
             | Some u \<Rightarrow>
                 (case getPendingMember g u of Inl e \<Rightarrow> None | Inr found \<Rightarrow> map_option fst found))
       ds"

definition newPendingEntries ::
  "nat \<Rightarrow> bytes \<Rightarrow> nat \<Rightarrow> PendingMember option list \<Rightarrow> PendingMember obj list" where
  "newPendingEntries n sourceACI now as =
     zip [n..<n + length as]
       (map (\<lambda>a. \<lparr>pm_member =
                     Some \<lparr>userId = Option.bind (Option.bind a pm_member) userId,
                           role = Option.bind (Option.bind a pm_member) role,
                           profileKey = None, presentation = None\<rparr>,
                   pm_addedByUserId = Some sourceACI,
                   pm_timestamp = Some now\<rparr>) as)"

definition newMemberEntries :: "nat \<Rightarrow> Collaborators \<Rightarrow> bytes option list \<Rightarrow> Member obj list" where
  "newMemberEntries n ops ps =
     zip [n..<n + length ps]
       (map (\<lambda>p. \<lparr>userId = map_option (getUuidCiphertext ops) p,
                   role = Some Role_DEFAULT,
                   profileKey = map_option (getProfileKeyCiphertext ops) p,
                   presentation = None\<rparr>) ps)"

definition nextSnapshot ::
  "Collaborators \<Rightarrow> ServerGroup \<Rightarrow> GroupState \<Rightarrow> bytes \<Rightarrow> bytes \<Rightarrow> Actions \<Rightarrow> nat \<Rightarrow> GroupState"
  where
  "nextSnapshot ops g s sourceACI sourcePNI acts now =
     s\<lparr>version := act_version acts,
       title := (case modifyTitle acts of None \<Rightarrow> title s | Some t \<Rightarrow> mt_title t),
       members :=
         filter (\<lambda>entry. fst entry \<notin> set (foundMemberOids g (deleteMembers acts))) (members s)
         @ newMemberEntries (nextOid g + length (addPendingMembers acts)) ops
             (map ppm_presentation (promotePendingMembers acts)
              @ map ppa_presentation (promoteMembersPendingPniAciProfileKey acts)),
       membersPendingProfileKey :=
         filter (\<lambda>entry. fst entry \<notin> set (foundPendingOids g
                   (deletePendingMembers acts
                    @ map (\<lambda>_. Some sourceACI) (promotePendingMembers acts)
                    @ map (\<lambda>_. Some sourcePNI) (promoteMembersPendingPniAciProfileKey acts))))
           (membersPendingProfileKey s
            @ newPendingEntries (nextOid g) sourceACI now (addPendingMembers acts))\<rparr>"

subsection \<open>A small instance to run the definitions on\<close>

text \<open>
  Collaborators for runs on concrete inputs: a presentation is two bytes \<open>[u, p]\<close>, it
  verifies against the public parameters \<open>[p]\<close>, and it carries the identity \<open>[u]\<close>
  and the profile key \<open>[255, u]\<close>.
\<close>

definition toyOps :: Collaborators where
  "toyOps =
     \<lparr>validGroupPublicParams = (\<lambda>b. b \<noteq> []),
      validUuidCiphertext = (\<lambda>b. length b = 1),
      validPresentation = (\<lambda>b. length b = 2),
      verifyProfileKeyCredentialPresentation = (\<lambda>pp b. pp = take 1 (rev b)),
      getUuidCiphertext = take 1,
      getProfileKeyCiphertext = (\<lambda>b. 255 # take 1 b),
      encodeActions = (\<lambda>a. case act_version a of None \<Rightarrow> [] | Some v \<Rightarrow> [of_nat v]),
      zkSign = rev\<rparr>"

definition toyMember :: "Role \<Rightarrow> bytes \<Rightarrow> Member obj" where
  "toyMember r pres =
     (0, \<lparr>userId = None, role = Some r, profileKey = None, presentation = Some pres\<rparr>)"

text \<open>
  An initial state with the administrator \<open>[1]\<close> and the member \<open>[2]\<close>, and with the
  access level \<open>lvl\<close> for the members.
\<close>

definition toyInit :: "AccessRequired \<Rightarrow> GroupState" where
  "toyInit lvl =
     \<lparr>publicKey = Some [7], title = None, version = Some 0,
      accessControl = Some \<lparr>ac_attributes = Some AR_ADMINISTRATOR,
                             ac_members = Some lvl,
                             ac_addFromInviteLink = Some AR_UNSATISFIABLE\<rparr>,
      members = [toyMember Role_ADMINISTRATOR [1, 7], toyMember Role_DEFAULT [2, 7]],
      membersPendingProfileKey = []\<rparr>"

text \<open>The snapshot and the instance the constructor makes of it (\<open>toy_constructed\<close> below).\<close>

definition toyState :: "AccessRequired \<Rightarrow> GroupState" where
  "toyState lvl =
     \<lparr>publicKey = Some [7], title = None, version = Some 0,
      accessControl = Some \<lparr>ac_attributes = Some AR_ADMINISTRATOR,
                             ac_members = Some lvl,
                             ac_addFromInviteLink = Some AR_UNSATISFIABLE\<rparr>,
      members =
        [(1, \<lparr>userId = Some [1], role = Some Role_ADMINISTRATOR,
              profileKey = Some [255, 1], presentation = None\<rparr>),
         (2, \<lparr>userId = Some [2], role = Some Role_DEFAULT,
              profileKey = Some [255, 2], presentation = None\<rparr>)],
      membersPendingProfileKey = []\<rparr>"

definition toyGroup :: "AccessRequired \<Rightarrow> ServerGroup" where
  "toyGroup lvl =
     \<lparr>privChanges = Some \<lparr>groupChanges = Some
        [\<lparr>groupChange = None, groupState = Some (toyState lvl)\<rparr>]\<rparr>,
      privPublicParams = Some [7],
      nextOid = 3\<rparr>"

definition emptyActions :: "nat \<Rightarrow> Actions" where
  "emptyActions v =
     \<lparr>sourceUuid = None, act_version = Some v, modifyTitle = None, deleteMembers = [],
      addPendingMembers = [], deletePendingMembers = [], promotePendingMembers = [],
      promoteMembersPendingPniAciProfileKey = []\<rparr>"

definition toyPending :: "bytes \<Rightarrow> PendingMember option" where
  "toyPending u =
     Some \<lparr>pm_member = Some \<lparr>userId = Some u, role = Some Role_DEFAULT, profileKey = None,
                              presentation = None\<rparr>,
           pm_addedByUserId = None, pm_timestamp = None\<rparr>"

definition toyPromote :: "bytes \<Rightarrow> PromotePendingMemberAction" where
  "toyPromote pres = \<lparr>ppm_presentation = Some pres, ppm_userId = None, ppm_profileKey = None\<rparr>"

text \<open>The toy instance after its administrator has invited the identity \<open>u\<close>.\<close>

definition toyInvited :: "bytes \<Rightarrow> ServerGroup" where
  "toyInvited u =
     snd (modify toyOps (toyGroup AR_ADMINISTRATOR) [1] [9]
            ((emptyActions 1)\<lparr>addPendingMembers := [toyPending u]\<rparr>) 10)"

text \<open>The snapshot of \<open>toyInvited u\<close>.\<close>

definition toyInvitedState :: "bytes \<Rightarrow> GroupState" where
  "toyInvitedState u =
     (toyState AR_ADMINISTRATOR)
       \<lparr>version := Some 1,
        membersPendingProfileKey :=
          [(3, \<lparr>pm_member = Some \<lparr>userId = Some u, role = Some Role_DEFAULT,
                                  profileKey = None, presentation = None\<rparr>,
                pm_addedByUserId = Some [1], pm_timestamp = Some 10\<rparr>)]\<rparr>"

section \<open>Basic facts\<close>

lemma toy_constructed: "construct toyOps (toyInit lvl) = Inr (toyGroup lvl)"
  by (simp add: toyGroup_def toyState_def construct_def toyInit_def toyOps_def toyMember_def bindE_def
      unrollMember_def verifiedPresentation_def publicParams_def freshOid_def Let_def)

lemma bindE_Inr: "bindE m f = Inr y \<longleftrightarrow> (\<exists>x. m = Inr x \<and> f x = Inr y)"
  by (cases m) (simp_all add: bindE_def)

lemma bindE_Inl: "bindE m f = Inl e \<longleftrightarrow> (m = Inl e \<or> (\<exists>x. m = Inr x \<and> f x = Inl e))"
  by (cases m) (simp_all add: bindE_def)

lemma assert_ok_Inr: "assert_ok b msg = Inr u \<longleftrightarrow> b"
  by (simp add: assert_ok_def)

lemma modify_cases:
  "modify ops g a p acts now = (r, g') \<Longrightarrow>
     (g' = g \<and> (\<forall>c. r \<noteq> Inr (Applied c))) \<or>
     (\<exists>w s v ch cs c. r = Inr (Applied c) \<and> applyActions ops g a p acts now = Inr w \<and>
        state g = Inr s \<and> version s = Some v \<and> act_version acts = Some (v + 1) \<and>
        privChanges g = Some ch \<and> groupChanges ch = Some cs \<and>
        g' = g\<lparr>privChanges := Some (ch\<lparr>groupChanges :=
                 Some (cs @ [\<lparr>groupChange = Some \<lparr>actions = encodeActions ops (appliedActions w),
                                  changeEpoch = w_changeEpoch w, serverSignature = None\<rparr>,
                              groupState = Some (newState w)\<rparr>])\<rparr>),
               nextOid := w_nextOid w\<rparr>)"
  unfolding modify_def
  by (auto simp: Let_def split: sum.splits option.splits if_splits)

lemma foldE_inv:
  "foldE f xs w = Inr w' \<Longrightarrow> P w \<Longrightarrow>
   (\<And>x u u'. x \<in> set xs \<Longrightarrow> P u \<Longrightarrow> f x u = Inr u' \<Longrightarrow> P u') \<Longrightarrow> P w'"
proof (induction xs arbitrary: w)
  case Nil
  then show ?case by simp
next
  case (Cons x xs)
  from Cons.prems(1) obtain u where u: "f x w = Inr u" and rest: "foldE f xs u = Inr w'"
    by (auto split: sum.splits)
  have "P u" using Cons.prems(3) [of x w u] Cons.prems(2) u by simp
  moreover have "\<And>y v v'. y \<in> set xs \<Longrightarrow> P v \<Longrightarrow> f y v = Inr v' \<Longrightarrow> P v'"
    using Cons.prems(3) by (meson list.set_intros(2))
  ultimately show ?case using Cons.IH [OF rest] by blast
qed

lemma foldE_fails:
  "x \<in> set xs \<Longrightarrow> (\<And>u. \<exists>e. f x u = Inl e) \<Longrightarrow> \<exists>e. foldE f xs w = Inl e"
proof (induction xs arbitrary: w)
  case Nil
  then show ?case by simp
next
  case (Cons y ys)
  show ?case
  proof (cases "f y w")
    case (Inl e)
    then show ?thesis by simp
  next
    case (Inr u)
    show ?thesis
    proof (cases "x = y")
      case True
      then show ?thesis using Cons.prems(2) [of w] Inr by simp
    next
      case False
      then have "x \<in> set ys" using Cons.prems(1) by simp
      then show ?thesis using Cons.IH [of u] Cons.prems(2) Inr by simp
    qed
  qed
qed

lemma deleteMember_step_Inr:
  "deleteMember_step ops g auth ac d w = Inr w' \<Longrightarrow>
   \<exists>u mem. d = Some u \<and>
     verifyAccess ''members'' auth (requiredAccess ac ac_members) (Some u) = Inr () \<and>
     validUuidCiphertext ops u \<and> getMember g u = Inr (Some mem) \<and>
     w' = w\<lparr>newState := (newState w)
              \<lparr>members := filter (\<lambda>entry. fst entry \<noteq> fst mem) (members (newState w))\<rparr>,
            appliedActions := (appliedActions w)
              \<lparr>deleteMembers := deleteMembers (appliedActions w) @ [Some u]\<rparr>\<rparr>"
  unfolding deleteMember_step_def
  by (auto simp: bindE_Inr split: option.splits if_splits)

lemma addPendingMember_step_Inr:
  "addPendingMember_step auth ac src now a w = Inr w' \<Longrightarrow>
   \<exists>added m uid r. a = Some added \<and> pm_member added = Some m \<and> userId m = Some uid \<and>
     role m = Some r \<and> r \<noteq> Role_UNKNOWN \<and>
     verifyAccess ''pendingMembers'' auth (requiredAccess ac ac_members) None = Inr () \<and>
     w' = w\<lparr>newState := (newState w)
              \<lparr>membersPendingProfileKey := membersPendingProfileKey (newState w)
                 @ [(w_nextOid w,
                     \<lparr>pm_member = Some \<lparr>userId = Some uid, role = Some r,
                                        profileKey = None, presentation = None\<rparr>,
                      pm_addedByUserId = Some src, pm_timestamp = Some now\<rparr>)]\<rparr>,
            appliedActions := (appliedActions w)
              \<lparr>addPendingMembers := addPendingMembers (appliedActions w)
                 @ [Some \<lparr>pm_member = Some \<lparr>userId = Some uid, role = Some r,
                                        profileKey = None, presentation = None\<rparr>,
                      pm_addedByUserId = Some src, pm_timestamp = Some now\<rparr>]\<rparr>,
            w_nextOid := Suc (w_nextOid w)\<rparr>"
  unfolding addPendingMember_step_def
  by (auto simp: bindE_Inr Let_def split: option.splits if_splits)

lemma deletePendingMember_step_Inr:
  "deletePendingMember_step g src pni d w = Inr w' \<Longrightarrow>
   \<exists>u pend. d = Some u \<and> (u = src \<or> u = pni) \<and> getPendingMember g u = Inr (Some pend) \<and>
     w' = w\<lparr>newState := (newState w)
              \<lparr>membersPendingProfileKey :=
                 filter (\<lambda>entry. fst entry \<noteq> fst pend) (membersPendingProfileKey (newState w))\<rparr>,
            appliedActions := (appliedActions w)
              \<lparr>deletePendingMembers := deletePendingMembers (appliedActions w) @ [Some u]\<rparr>\<rparr>"
  unfolding deletePendingMember_step_def
  by (auto simp: bindE_Inr assert_ok_Inr split: option.splits if_splits)

lemma promotePendingMember_step_Inr:
  "promotePendingMember_step ops g src a w = Inr w' \<Longrightarrow>
   \<exists>pres pend. ppm_presentation a = Some pres \<and> verifiedPresentation ops g pres = Inr () \<and>
     getUuidCiphertext ops pres = src \<and>
     getPendingMember g src = Inr (Some pend) \<and> getMember g src = Inr None \<and>
     w' = w\<lparr>newState := (newState w)
              \<lparr>membersPendingProfileKey :=
                 filter (\<lambda>entry. fst entry \<noteq> fst pend) (membersPendingProfileKey (newState w)),
               members := members (newState w)
                 @ [(w_nextOid w,
                     \<lparr>userId = Some src, role = Some Role_DEFAULT,
                      profileKey = Some (getProfileKeyCiphertext ops pres),
                      presentation = None\<rparr>)]\<rparr>,
            appliedActions := (appliedActions w)
              \<lparr>promotePendingMembers := promotePendingMembers (appliedActions w)
                 @ [\<lparr>ppm_presentation = None, ppm_userId = Some src,
                      ppm_profileKey = Some (getProfileKeyCiphertext ops pres)\<rparr>]\<rparr>,
            w_nextOid := Suc (w_nextOid w)\<rparr>"
  unfolding promotePendingMember_step_def
  by (auto simp: bindE_Inr assert_ok_Inr Let_def split: option.splits if_splits)

lemma promotePniAci_step_Inr:
  "promotePniAci_step ops g src pni a w = Inr w' \<Longrightarrow>
   \<exists>pres pend. ppa_presentation a = Some pres \<and> verifiedPresentation ops g pres = Inr () \<and>
     getUuidCiphertext ops pres = src \<and>
     getPendingMember g pni = Inr (Some pend) \<and> getMember g src = Inr None \<and>
     w' = w\<lparr>newState := (newState w)
              \<lparr>membersPendingProfileKey :=
                 filter (\<lambda>entry. fst entry \<noteq> fst pend) (membersPendingProfileKey (newState w)),
               members := members (newState w)
                 @ [(w_nextOid w,
                     \<lparr>userId = Some src, role = Some Role_DEFAULT,
                      profileKey = Some (getProfileKeyCiphertext ops pres),
                      presentation = None\<rparr>)]\<rparr>,
            w_changeEpoch := max (w_changeEpoch w) 5,
            appliedActions := (appliedActions w)
              \<lparr>sourceUuid := Some pni,
               promoteMembersPendingPniAciProfileKey :=
                 promoteMembersPendingPniAciProfileKey (appliedActions w)
                 @ [\<lparr>ppa_presentation = None, ppa_userId = Some src, ppa_pni = Some pni,
                      ppa_profileKey = Some (getProfileKeyCiphertext ops pres)\<rparr>]\<rparr>,
            w_nextOid := Suc (w_nextOid w)\<rparr>"
  unfolding promotePniAci_step_def
  by (auto simp: bindE_Inr assert_ok_Inr Let_def split: option.splits if_splits)

lemma modifyTitle_step_Inr:
  "modifyTitle_step auth ac mt w = Inr w' \<Longrightarrow>
   (mt = None \<and> w' = w) \<or>
   (\<exists>t. mt = Some t \<and>
      verifyAccess ''title'' auth (requiredAccess ac ac_attributes) None = Inr () \<and>
      w' = w\<lparr>appliedActions := (appliedActions w)\<lparr>modifyTitle := Some t\<rparr>,
             newState := (newState w)\<lparr>title := mt_title t\<rparr>\<rparr>)"
  unfolding modifyTitle_step_def
  by (auto simp: bindE_Inr split: option.splits)

lemma applyActions_Inr:
  assumes "applyActions ops g src pni acts now = Inr w"
  obtains s auth w1 w2 w3 w4 w5 where
    "act_version acts \<noteq> None" and "act_version acts \<noteq> Some 0" and
    "state g = Inr s" and "getMember g src = Inr auth" and
    "modifyTitle_step (map_option snd auth) (accessControl s) (modifyTitle acts)
       (initialWork g s src acts) = Inr w1" and
    "foldE (deleteMember_step ops g (map_option snd auth) (accessControl s))
       (deleteMembers acts) w1 = Inr w2" and
    "foldE (addPendingMember_step (map_option snd auth) (accessControl s) src now)
       (addPendingMembers acts) w2 = Inr w3" and
    "foldE (deletePendingMember_step g src pni) (deletePendingMembers acts) w3 = Inr w4" and
    "foldE (promotePendingMember_step ops g src) (promotePendingMembers acts) w4 = Inr w5" and
    "foldE (promotePniAci_step ops g src pni)
       (promoteMembersPendingPniAciProfileKey acts) w5 = Inr w"
proof -
  from assms have
    "\<exists>s auth w1 w2 w3 w4 w5.
     act_version acts \<noteq> None \<and> act_version acts \<noteq> Some 0 \<and>
     state g = Inr s \<and> getMember g src = Inr auth \<and>
     modifyTitle_step (map_option snd auth) (accessControl s) (modifyTitle acts)
       (initialWork g s src acts) = Inr w1 \<and>
     foldE (deleteMember_step ops g (map_option snd auth) (accessControl s))
       (deleteMembers acts) w1 = Inr w2 \<and>
     foldE (addPendingMember_step (map_option snd auth) (accessControl s) src now)
       (addPendingMembers acts) w2 = Inr w3 \<and>
     foldE (deletePendingMember_step g src pni) (deletePendingMembers acts) w3 = Inr w4 \<and>
     foldE (promotePendingMember_step ops g src) (promotePendingMembers acts) w4 = Inr w5 \<and>
     foldE (promotePniAci_step ops g src pni)
       (promoteMembersPendingPniAciProfileKey acts) w5 = Inr w"
    unfolding applyActions_def
    by (simp add: bindE_Inr assert_ok_Inr Let_def initialWork_def)
  then show thesis
    by (elim exE conjE) (rule that; assumption)
qed

section \<open>Atomicity of modify\<close>

text \<open>
  Claim C2. A call of \<^verbatim>\<open>modify\<close> that does not commit, whether it throws (a failed
  validation, a denied access, a failed credential verification) or returns
  \<open>Conflict\<close>, leaves the instance as it was: the change log and with it the committed
  snapshot. A call that commits appends one entry to the change log and assigns
  nothing else of the instance.
\<close>

theorem modify_frame:
  "(modify ops g sourceACI sourcePNI acts now = (r, g') \<and> (\<forall>c. r \<noteq> Inr (Applied c))
      \<longrightarrow> g' = g \<and> state g' = state g \<and> privChanges g' = privChanges g) \<and>
   (modify ops g2 sourceACI2 sourcePNI2 acts2 now2 = (Inr (Applied c2), g2')
      \<longrightarrow> (\<exists>ch cs entry. privChanges g2 = Some ch \<and> groupChanges ch = Some cs \<and>
            privChanges g2' = Some (ch\<lparr>groupChanges := Some (cs @ [entry])\<rparr>) \<and>
            privPublicParams g2' = privPublicParams g2))"
proof (rule conjI; rule impI)
  assume a: "modify ops g sourceACI sourcePNI acts now = (r, g') \<and> (\<forall>c. r \<noteq> Inr (Applied c))"
  then have "g' = g" using modify_cases [of ops g sourceACI sourcePNI acts now r g'] by auto
  then show "g' = g \<and> state g' = state g \<and> privChanges g' = privChanges g" by simp
next
  assume "modify ops g2 sourceACI2 sourcePNI2 acts2 now2 = (Inr (Applied c2), g2')"
  from modify_cases [OF this]
  show "\<exists>ch cs entry. privChanges g2 = Some ch \<and> groupChanges ch = Some cs \<and>
            privChanges g2' = Some (ch\<lparr>groupChanges := Some (cs @ [entry])\<rparr>) \<and>
            privPublicParams g2' = privPublicParams g2"
    by auto
qed

text \<open>
  The member \<open>[2]\<close>, who is no administrator, is denied the change of the title and the
  instance stays as it was; the administrator \<open>[1]\<close> makes the same change, and the log
  grows by one entry.
\<close>

theorem modify_frame_witness:
  "snd (modify toyOps (toyGroup AR_ADMINISTRATOR) [2] [9]
          ((emptyActions 1)\<lparr>modifyTitle := Some \<lparr>mt_title = Some [3]\<rparr>\<rparr>) 10)
     = toyGroup AR_ADMINISTRATOR \<and>
   (\<exists>ch cs entry.
      privChanges (toyGroup AR_ADMINISTRATOR) = Some ch \<and> groupChanges ch = Some cs \<and>
      privChanges (snd (modify toyOps (toyGroup AR_ADMINISTRATOR) [1] [9]
          ((emptyActions 1)\<lparr>modifyTitle := Some \<lparr>mt_title = Some [3]\<rparr>\<rparr>) 10))
        = Some (ch\<lparr>groupChanges := Some (cs @ [entry])\<rparr>))"
proof -
  let ?G = "toyGroup AR_ADMINISTRATOR"
  let ?A = "(emptyActions 1)\<lparr>modifyTitle := Some \<lparr>mt_title = Some [3]\<rparr>\<rparr>"
  let ?C = "\<lparr>actions = [1], changeEpoch = 1, serverSignature = Some [1]\<rparr>"
  have denied: "fst (modify toyOps ?G [2] [9] ?A 10)
      = Inl (AssertionError ''Must be an administrator to modify: title'')"
    by code_simp
  have applied: "fst (modify toyOps ?G [1] [9] ?A 10) = Inr (Applied ?C)"
    by code_simp
  have 1: "modify toyOps ?G [2] [9] ?A 10
      = (Inl (AssertionError ''Must be an administrator to modify: title''),
         snd (modify toyOps ?G [2] [9] ?A 10))"
    using denied by (simp add: prod_eq_iff)
  have 2: "modify toyOps ?G [1] [9] ?A 10 = (Inr (Applied ?C), snd (modify toyOps ?G [1] [9] ?A 10))"
    using applied by (simp add: prod_eq_iff)
  have p1: "modify toyOps ?G [2] [9] ?A 10
        = (Inl (AssertionError ''Must be an administrator to modify: title''),
           snd (modify toyOps ?G [2] [9] ?A 10)) \<and>
      (\<forall>c. Inl (AssertionError ''Must be an administrator to modify: title'') \<noteq> Inr (Applied c))"
    using 1 by simp
  note frame = modify_frame [of toyOps ?G "[2]" "[9]" ?A 10
      "Inl (AssertionError ''Must be an administrator to modify: title'')"
      "snd (modify toyOps ?G [2] [9] ?A 10)"
      ?G "[1]" "[9]" ?A 10 ?C "snd (modify toyOps ?G [1] [9] ?A 10)"]
  from frame [THEN conjunct1, THEN mp, OF p1]
  have a: "snd (modify toyOps ?G [2] [9] ?A 10) = ?G" by (rule conjunct1)
  from frame [THEN conjunct2, THEN mp, OF 2]
  have b: "\<exists>ch cs entry. privChanges ?G = Some ch \<and> groupChanges ch = Some cs \<and>
      privChanges (snd (modify toyOps ?G [1] [9] ?A 10))
        = Some (ch\<lparr>groupChanges := Some (cs @ [entry])\<rparr>)"
    by blast
  from a b show ?thesis by (rule conjI)
qed

section \<open>Version conflicts\<close>

text \<open>
  Claim C1, as stated: for every bundle whose declared version is not the committed
  version plus one, \<^verbatim>\<open>modify\<close> returns \<open>Conflict\<close> and never throws. It fails on the
  instance at version 0: the declared version 0 is refused by the assertion of line
  83, and with the declared version 5 the version is compared only after the
  sub-actions have run, so the denied change of the title throws first.
\<close>

theorem modify_conflict_counterexample:
  "state (toyGroup AR_ADMINISTRATOR) = Inr (toyState AR_ADMINISTRATOR) \<and>
   version (toyState AR_ADMINISTRATOR) = Some 0 \<and>
   act_version (emptyActions 0) \<noteq> Some (0 + 1) \<and>
   fst (modify toyOps (toyGroup AR_ADMINISTRATOR) [1] [9] (emptyActions 0) 10)
     = Inl (AssertionError ''Actions should have a new version'') \<and>
   act_version ((emptyActions 5)\<lparr>modifyTitle := Some \<lparr>mt_title = Some [3]\<rparr>\<rparr>) \<noteq> Some (0 + 1) \<and>
   fst (modify toyOps (toyGroup AR_ADMINISTRATOR) [2] [9]
          ((emptyActions 5)\<lparr>modifyTitle := Some \<lparr>mt_title = Some [3]\<rparr>\<rparr>) 10)
     = Inl (AssertionError ''Must be an administrator to modify: title'')"
  by code_simp

text \<open>
  Claim C1, amended. When the declared version is not the committed version plus one,
  \<^verbatim>\<open>modify\<close> never commits and the instance is as it was before the call. It returns
  \<open>Conflict\<close> exactly when the sub-actions have run without a throw, which needs a
  declared version other than 0; otherwise it throws, and with an absent version or
  the version 0 it throws the assertion error of line 83.
\<close>

theorem modify_conflict:
  assumes "state g = Inr s" and "version s = Some v"
    and "act_version acts \<noteq> Some (v + 1)"
    and "modify ops g sourceACI sourcePNI acts now = (r, g')"
  shows "g' = g \<and>
         (r = Inr Conflict \<longleftrightarrow> (\<exists>w. applyActions ops g sourceACI sourcePNI acts now = Inr w)) \<and>
         (r \<noteq> Inr Conflict \<longleftrightarrow> (\<exists>e. r = Inl e)) \<and>
         (act_version acts = None \<or> act_version acts = Some 0
            \<longrightarrow> r = Inl (AssertionError ''Actions should have a new version''))"
proof -
  have bad: "act_version acts = None \<or> act_version acts = Some 0
      \<Longrightarrow> applyActions ops g sourceACI sourcePNI acts now
            = Inl (AssertionError ''Actions should have a new version'')"
    by (auto simp: applyActions_def assert_ok_def bindE_def)
  show ?thesis
    using assms bad unfolding modify_def
    by (auto split: sum.splits)
qed

text \<open>
  On the toy instance, at version 0, the bundle with the version 5 and no sub-action
  gets \<open>Conflict\<close>, and the bundle with the version 0 the assertion error.
\<close>

theorem modify_conflict_witness:
  "snd (modify toyOps (toyGroup AR_ADMINISTRATOR) [1] [9] (emptyActions 5) 10)
     = toyGroup AR_ADMINISTRATOR \<and>
   fst (modify toyOps (toyGroup AR_ADMINISTRATOR) [1] [9] (emptyActions 5) 10) = Inr Conflict \<and>
   snd (modify toyOps (toyGroup AR_ADMINISTRATOR) [1] [9] (emptyActions 0) 10)
     = toyGroup AR_ADMINISTRATOR \<and>
   fst (modify toyOps (toyGroup AR_ADMINISTRATOR) [1] [9] (emptyActions 0) 10)
     = Inl (AssertionError ''Actions should have a new version'')"
proof -
  let ?G = "toyGroup AR_ADMINISTRATOR"
  have 1: "state ?G = Inr (toyState AR_ADMINISTRATOR)" by code_simp
  have 2: "version (toyState AR_ADMINISTRATOR) = Some 0" by code_simp
  have 3: "act_version (emptyActions 5) \<noteq> Some (0 + 1)" by code_simp
  have 4: "case applyActions toyOps ?G [1] [9] (emptyActions 5) 10 of
             Inl e \<Rightarrow> False | Inr w \<Rightarrow> True"
    by code_simp
  then obtain w where w: "applyActions toyOps ?G [1] [9] (emptyActions 5) 10 = Inr w"
    by (auto split: sum.splits)
  have 5: "act_version (emptyActions 0) \<noteq> Some (0 + 1)" by code_simp
  have 6: "act_version (emptyActions 0) = None \<or> act_version (emptyActions 0) = Some 0"
    by (simp add: emptyActions_def)
  have a: "snd (modify toyOps ?G [1] [9] (emptyActions 5) 10) = ?G \<and>
      fst (modify toyOps ?G [1] [9] (emptyActions 5) 10) = Inr Conflict"
    using modify_conflict [OF 1 2 3, of toyOps "[1]" "[9]" 10
        "fst (modify toyOps ?G [1] [9] (emptyActions 5) 10)"
        "snd (modify toyOps ?G [1] [9] (emptyActions 5) 10)"] w
    by auto
  have b: "snd (modify toyOps ?G [1] [9] (emptyActions 0) 10) = ?G \<and>
      fst (modify toyOps ?G [1] [9] (emptyActions 0) 10)
        = Inl (AssertionError ''Actions should have a new version'')"
    using modify_conflict [OF 1 2 5, of toyOps "[1]" "[9]" 10
        "fst (modify toyOps ?G [1] [9] (emptyActions 0) 10)"
        "snd (modify toyOps ?G [1] [9] (emptyActions 0) 10)"] 6
    by auto
  from a b show ?thesis by blast
qed

section \<open>Access control\<close>

text \<open>
  Claim C6. \<^verbatim>\<open>verifyAccess\<close> allows whenever the affected identity is given and is the
  acting member's own, whatever the level. Otherwise it allows under ANY, allows
  under MEMBER exactly when there is an acting member, allows under ADMINISTRATOR
  exactly when the acting member's role is ADMINISTRATOR, and throws under
  UNSATISFIABLE and under UNKNOWN. It is a function of its arguments to a result:
  it reads and writes no state.
\<close>

theorem verifyAccess_rule:
  "(mem = Some m \<and> userId m = Some u \<and> affected = Some u
      \<longrightarrow> verifyAccess attribute mem lvl affected = Inr ()) \<and>
   (\<not> (\<exists>m u. mem2 = Some m \<and> userId m = Some u \<and> affected2 = Some u)
      \<longrightarrow> verifyAccess attribute mem2 AR_ANY affected2 = Inr () \<and>
          (verifyAccess attribute mem2 AR_MEMBER affected2 = Inr () \<longleftrightarrow> mem2 \<noteq> None) \<and>
          (verifyAccess attribute mem2 AR_ADMINISTRATOR affected2 = Inr ()
             \<longleftrightarrow> (\<exists>m. mem2 = Some m \<and> role m = Some Role_ADMINISTRATOR)) \<and>
          (\<exists>e. verifyAccess attribute mem2 AR_UNSATISFIABLE affected2 = Inl e) \<and>
          (\<exists>e. verifyAccess attribute mem2 AR_UNKNOWN affected2 = Inl e))"
  unfolding verifyAccess_def assert_ok_def
  by (auto split: option.splits)

text \<open>
  The member \<open>[2]\<close> with the role DEFAULT: allowed on its own identity under
  UNSATISFIABLE; on the identity \<open>[1]\<close> allowed under ANY and MEMBER, and denied under
  ADMINISTRATOR, UNSATISFIABLE and UNKNOWN.
\<close>

theorem verifyAccess_rule_witness:
  "verifyAccess ''members''
     (Some \<lparr>userId = Some [2], role = Some Role_DEFAULT, profileKey = None, presentation = None\<rparr>)
     AR_UNSATISFIABLE (Some [2]) = Inr () \<and>
   verifyAccess ''members''
     (Some \<lparr>userId = Some [2], role = Some Role_DEFAULT, profileKey = None, presentation = None\<rparr>)
     AR_ANY (Some [1]) = Inr () \<and>
   verifyAccess ''members''
     (Some \<lparr>userId = Some [2], role = Some Role_DEFAULT, profileKey = None, presentation = None\<rparr>)
     AR_MEMBER (Some [1]) = Inr () \<and>
   verifyAccess ''members''
     (Some \<lparr>userId = Some [2], role = Some Role_DEFAULT, profileKey = None, presentation = None\<rparr>)
     AR_ADMINISTRATOR (Some [1]) \<noteq> Inr () \<and>
   (\<exists>e. verifyAccess ''members''
     (Some \<lparr>userId = Some [2], role = Some Role_DEFAULT, profileKey = None, presentation = None\<rparr>)
     AR_UNSATISFIABLE (Some [1]) = Inl e) \<and>
   (\<exists>e. verifyAccess ''members''
     (Some \<lparr>userId = Some [2], role = Some Role_DEFAULT, profileKey = None, presentation = None\<rparr>)
     AR_UNKNOWN (Some [1]) = Inl e)"
proof -
  let ?m = "\<lparr>userId = Some [2::8 word], role = Some Role_DEFAULT, profileKey = None,
             presentation = None\<rparr>"
  have own: "Some ?m = Some ?m \<and> userId ?m = Some [2] \<and> Some [2::8 word] = Some [2]"
    by simp
  have other: "\<not> (\<exists>m u. Some ?m = Some m \<and> userId m = Some u \<and> Some [1::8 word] = Some u)"
    by simp
  have notadmin: "\<not> (\<exists>m. Some ?m = Some m \<and> role m = Some Role_ADMINISTRATOR)"
    by simp
  note rule = verifyAccess_rule [of "Some ?m" ?m "[2]" "Some [2]" "''members''"
      AR_UNSATISFIABLE "Some ?m" "Some [1]"]
  from rule [THEN conjunct1, THEN mp, OF own] rule [THEN conjunct2, THEN mp, OF other] notadmin
  show ?thesis by blast
qed

section \<open>Construction\<close>

lemma unrollMember_Inr:
  "unrollMember ops g m = Inr m' \<Longrightarrow>
   \<exists>r pres. role m = Some r \<and> presentation m = Some pres \<and>
     verifiedPresentation ops g pres = Inr () \<and>
     m' = \<lparr>userId = Some (getUuidCiphertext ops pres), role = Some r,
           profileKey = Some (getProfileKeyCiphertext ops pres), presentation = None\<rparr>"
  unfolding unrollMember_def
  by (auto simp: bindE_Inr split: option.splits)

lemma verifiedPresentation_Inr:
  "verifiedPresentation ops g pres = Inr u \<longleftrightarrow>
   (\<exists>pp. privPublicParams g = Some pp \<and> validPresentation ops pres \<and>
      verifyProfileKeyCredentialPresentation ops pp pres)"
  unfolding verifiedPresentation_def publicParams_def
  by (auto simp: bindE_Inr split: option.splits)

lemma unrollMembers_Inr:
  "unrollMembers ops g n ms = Inr ms' \<Longrightarrow>
   list_all2 (\<lambda>inp out. unrollMember ops g (snd inp) = Inr (snd out)) ms ms'"
proof (induction ms arbitrary: n ms')
  case Nil
  then show ?case by simp
next
  case (Cons m ms)
  then show ?case by (auto split: sum.splits)
qed

lemma unrollMembers_fails:
  "m \<in> set ms \<Longrightarrow> unrollMember ops g (snd m) = Inl e \<Longrightarrow> \<exists>e'. unrollMembers ops g n ms = Inl e'"
proof (induction ms arbitrary: n)
  case Nil
  then show ?case by simp
next
  case (Cons a ms)
  show ?case
  proof (cases "m = a")
    case True
    then show ?thesis using Cons.prems(2) by simp
  next
    case False
    then have "m \<in> set ms" using Cons.prems(1) by simp
    from Cons.IH [OF this Cons.prems(2), of "Suc n"] show ?thesis
      by (auto split: sum.splits)
  qed
qed

lemma unrollMember_fails:
  "privPublicParams g = Some pp \<Longrightarrow> \<not> presentationVerifies ops pp m \<Longrightarrow>
   \<exists>e. unrollMember ops g m = Inl e"
  unfolding unrollMember_def presentationVerifies_def verifiedPresentation_def publicParams_def
  by (auto simp: bindE_def split: option.splits)

lemma construct_Inr:
  "construct ops st = Inr g \<Longrightarrow>
   \<exists>pk ac ms. publicKey st = Some pk \<and> version st = Some 0 \<and> accessControl st = Some ac \<and>
     ac_attributes ac \<noteq> None \<and> ac_members ac \<noteq> None \<and> ac_addFromInviteLink ac \<noteq> None \<and>
     members st \<noteq> [] \<and> validGroupPublicParams ops pk \<and>
     unrollMembers ops \<lparr>privChanges = None, privPublicParams = Some pk, nextOid = freshOid st\<rparr>
       (freshOid st) (members st) = Inr ms \<and>
     g = \<lparr>privChanges = Some \<lparr>groupChanges =
             Some [\<lparr>groupChange = None, groupState = Some (st\<lparr>members := ms\<rparr>)\<rparr>]\<rparr>,
          privPublicParams = Some pk, nextOid = freshOid st + length ms\<rparr>"
  unfolding construct_def
  by (auto simp: bindE_Inr Let_def split: option.splits if_splits)

text \<open>
  Claim C9. The constructor throws, and so yields no instance, for every initial state
  with a version other than 0, without a public key, without an access control or
  with one of its three levels absent, with an empty member list, or with a member
  whose presentation is absent or does not verify. When it returns, the member list
  of the snapshot has, member by member, the role of the input and the identity and
  the profile key read from the input's verified presentation.
\<close>

theorem construct_checks:
  "(publicKey st = None \<or> version st \<noteq> Some 0 \<or> accessControl st = None \<or>
    (\<exists>ac. accessControl st = Some ac \<and>
       (ac_attributes ac = None \<or> ac_members ac = None \<or> ac_addFromInviteLink ac = None)) \<or>
    members st = [] \<or>
    (\<exists>pk m. publicKey st = Some pk \<and> m \<in> set (members st) \<and>
       \<not> presentationVerifies ops pk (snd m))
      \<longrightarrow> (\<exists>e. construct ops st = Inl e)) \<and>
   (construct ops st2 = Inr g
      \<longrightarrow> (\<exists>s pk. state g = Inr s \<and> publicKey st2 = Some pk \<and>
            list_all2 (\<lambda>inp out. \<exists>pres. presentation (snd inp) = Some pres \<and>
                 presentationVerifies ops pk (snd inp) \<and>
                 userId (snd out) = Some (getUuidCiphertext ops pres) \<and>
                 profileKey (snd out) = Some (getProfileKeyCiphertext ops pres) \<and>
                 role (snd out) = role (snd inp))
              (members st2) (members s)))"
proof (rule conjI; rule impI)
  assume bad: "publicKey st = None \<or> version st \<noteq> Some 0 \<or> accessControl st = None \<or>
    (\<exists>ac. accessControl st = Some ac \<and>
       (ac_attributes ac = None \<or> ac_members ac = None \<or> ac_addFromInviteLink ac = None)) \<or>
    members st = [] \<or>
    (\<exists>pk m. publicKey st = Some pk \<and> m \<in> set (members st) \<and>
       \<not> presentationVerifies ops pk (snd m))"
  show "\<exists>e. construct ops st = Inl e"
  proof (cases "construct ops st")
    case (Inl e)
    then show ?thesis by blast
  next
    case (Inr g)
    from construct_Inr [OF Inr] obtain pk ac ms where
      ok: "publicKey st = Some pk" "version st = Some 0" "accessControl st = Some ac"
        "ac_attributes ac \<noteq> None" "ac_members ac \<noteq> None" "ac_addFromInviteLink ac \<noteq> None"
        "members st \<noteq> []" and
      un: "unrollMembers ops \<lparr>privChanges = None, privPublicParams = Some pk,
             nextOid = freshOid st\<rparr> (freshOid st) (members st) = Inr ms"
      by blast
    from bad ok obtain m where m: "m \<in> set (members st)" "\<not> presentationVerifies ops pk (snd m)"
      by auto
    from unrollMember_fails [OF _ m(2), of "\<lparr>privChanges = None, privPublicParams = Some pk,
             nextOid = freshOid st\<rparr>"]
    obtain e where "unrollMember ops \<lparr>privChanges = None, privPublicParams = Some pk,
             nextOid = freshOid st\<rparr> (snd m) = Inl e"
      by auto
    from unrollMembers_fails [OF m(1) this, of "freshOid st"] un show ?thesis by simp
  qed
next
  assume c: "construct ops st2 = Inr g"
  from construct_Inr [OF c] obtain pk ac ms where
    pk: "publicKey st2 = Some pk" and
    un: "unrollMembers ops \<lparr>privChanges = None, privPublicParams = Some pk,
           nextOid = freshOid st2\<rparr> (freshOid st2) (members st2) = Inr ms" and
    g: "g = \<lparr>privChanges = Some \<lparr>groupChanges =
             Some [\<lparr>groupChange = None, groupState = Some (st2\<lparr>members := ms\<rparr>)\<rparr>]\<rparr>,
          privPublicParams = Some pk, nextOid = freshOid st2 + length ms\<rparr>"
    by blast
  have st: "state g = Inr (st2\<lparr>members := ms\<rparr>)"
    by (simp add: g state_def changes_def bindE_def)
  have "list_all2 (\<lambda>inp out. \<exists>pres. presentation (snd inp) = Some pres \<and>
                 presentationVerifies ops pk (snd inp) \<and>
                 userId (snd out) = Some (getUuidCiphertext ops pres) \<and>
                 profileKey (snd out) = Some (getProfileKeyCiphertext ops pres) \<and>
                 role (snd out) = role (snd inp)) (members st2) ms"
    using unrollMembers_Inr [OF un]
  proof (rule list_all2_mono)
    fix inp out
    assume "unrollMember ops \<lparr>privChanges = None, privPublicParams = Some pk,
           nextOid = freshOid st2\<rparr> (snd inp) = Inr (snd out)"
    from unrollMember_Inr [OF this]
    show "\<exists>pres. presentation (snd inp) = Some pres \<and>
                 presentationVerifies ops pk (snd inp) \<and>
                 userId (snd out) = Some (getUuidCiphertext ops pres) \<and>
                 profileKey (snd out) = Some (getProfileKeyCiphertext ops pres) \<and>
                 role (snd out) = role (snd inp)"
      by (auto simp: verifiedPresentation_Inr presentationVerifies_def)
  qed
  then show "\<exists>s pk. state g = Inr s \<and> publicKey st2 = Some pk \<and>
            list_all2 (\<lambda>inp out. \<exists>pres. presentation (snd inp) = Some pres \<and>
                 presentationVerifies ops pk (snd inp) \<and>
                 userId (snd out) = Some (getUuidCiphertext ops pres) \<and>
                 profileKey (snd out) = Some (getProfileKeyCiphertext ops pres) \<and>
                 role (snd out) = role (snd inp))
              (members st2) (members s)"
    using st pk by auto
qed

text \<open>
  The constructor throws on the toy state with a second member whose presentation
  \<open>[2, 8]\<close> does not verify against the public key \<open>[7]\<close>, and returns on the toy state
  itself, with the identities \<open>[1]\<close> and \<open>[2]\<close> read from the presentations.
\<close>

theorem construct_checks_witness:
  "(\<exists>e. construct toyOps
          ((toyInit AR_MEMBER)\<lparr>members := [toyMember Role_ADMINISTRATOR [1, 7],
                                            toyMember Role_DEFAULT [2, 8]]\<rparr>) = Inl e) \<and>
   (\<exists>s. state (toyGroup AR_MEMBER) = Inr s \<and>
      list_all2 (\<lambda>inp out. \<exists>pres. presentation (snd inp) = Some pres \<and>
                 presentationVerifies toyOps [7] (snd inp) \<and>
                 userId (snd out) = Some (getUuidCiphertext toyOps pres) \<and>
                 profileKey (snd out) = Some (getProfileKeyCiphertext toyOps pres) \<and>
                 role (snd out) = role (snd inp))
              (members (toyInit AR_MEMBER)) (members s))"
proof -
  let ?bad = "(toyInit AR_MEMBER)\<lparr>members := [toyMember Role_ADMINISTRATOR [1, 7],
                                               toyMember Role_DEFAULT [2, 8]]\<rparr>"
  have pk: "publicKey ?bad = Some [7]" by (simp add: toyInit_def)
  have mem: "toyMember Role_DEFAULT [2, 8] \<in> set (members ?bad)" by simp
  have nv: "\<not> presentationVerifies toyOps [7] (snd (toyMember Role_DEFAULT [2, 8]))"
    by (simp add: presentationVerifies_def toyMember_def toyOps_def)
  have hyp: "publicKey ?bad = None \<or> version ?bad \<noteq> Some 0 \<or> accessControl ?bad = None \<or>
    (\<exists>ac. accessControl ?bad = Some ac \<and>
       (ac_attributes ac = None \<or> ac_members ac = None \<or> ac_addFromInviteLink ac = None)) \<or>
    members ?bad = [] \<or>
    (\<exists>pk m. publicKey ?bad = Some pk \<and> m \<in> set (members ?bad) \<and>
       \<not> presentationVerifies toyOps pk (snd m))"
    using pk mem nv by blast
  have pk2: "publicKey (toyInit AR_MEMBER) = Some [7]" by (simp add: toyInit_def)
  note c = construct_checks [of ?bad toyOps "toyInit AR_MEMBER" "toyGroup AR_MEMBER"]
  from c [THEN conjunct1, THEN mp, OF hyp] c [THEN conjunct2, THEN mp, OF toy_constructed] pk2
  show ?thesis by auto
qed

section \<open>The change log\<close>

lemma step_version:
  "deleteMember_step ops g auth ac d w = Inr w' \<Longrightarrow> version (newState w') = version (newState w)"
  "addPendingMember_step auth ac src now a w = Inr w'
     \<Longrightarrow> version (newState w') = version (newState w)"
  "deletePendingMember_step g src pni d w = Inr w'
     \<Longrightarrow> version (newState w') = version (newState w)"
  "promotePendingMember_step ops g src pa w = Inr w'
     \<Longrightarrow> version (newState w') = version (newState w)"
  "promotePniAci_step ops g src pni pp w = Inr w'
     \<Longrightarrow> version (newState w') = version (newState w)"
  "modifyTitle_step auth ac mt w = Inr w' \<Longrightarrow> version (newState w') = version (newState w)"
  by (auto dest!: deleteMember_step_Inr addPendingMember_step_Inr deletePendingMember_step_Inr
      promotePendingMember_step_Inr promotePniAci_step_Inr modifyTitle_step_Inr)

lemma applyActions_version:
  assumes "applyActions ops g src pni acts now = Inr w"
  shows "version (newState w) = act_version acts"
proof -
  from assms obtain s auth w1 w2 w3 w4 w5 where
    "act_version acts \<noteq> None" and "act_version acts \<noteq> Some 0" and
    "state g = Inr s" and "getMember g src = Inr auth" and
    t: "modifyTitle_step (map_option snd auth) (accessControl s) (modifyTitle acts)
       (initialWork g s src acts) = Inr w1" and
    d: "foldE (deleteMember_step ops g (map_option snd auth) (accessControl s))
       (deleteMembers acts) w1 = Inr w2" and
    a: "foldE (addPendingMember_step (map_option snd auth) (accessControl s) src now)
       (addPendingMembers acts) w2 = Inr w3" and
    dp: "foldE (deletePendingMember_step g src pni) (deletePendingMembers acts) w3 = Inr w4" and
    p: "foldE (promotePendingMember_step ops g src) (promotePendingMembers acts) w4 = Inr w5" and
    q: "foldE (promotePniAci_step ops g src pni)
       (promoteMembersPendingPniAciProfileKey acts) w5 = Inr w"
    by (rule applyActions_Inr)
  let ?P = "\<lambda>u. version (newState u) = act_version acts"
  have 1: "?P w1" using step_version(6) [OF t] by (simp add: initialWork_def)
  have 2: "?P w2" by (rule foldE_inv [OF d, of ?P]) (auto simp: 1 dest: step_version(1))
  have 3: "?P w3" by (rule foldE_inv [OF a, of ?P]) (auto simp: 2 dest: step_version(2))
  have 4: "?P w4" by (rule foldE_inv [OF dp, of ?P]) (auto simp: 3 dest: step_version(3))
  have 5: "?P w5" by (rule foldE_inv [OF p, of ?P]) (auto simp: 4 dest: step_version(4))
  show ?thesis by (rule foldE_inv [OF q, of ?P]) (auto simp: 5 dest: step_version(5))
qed

lemma state_log:
  "privChanges g = Some \<lparr>groupChanges = Some cs\<rparr> \<Longrightarrow> cs \<noteq> [] \<Longrightarrow>
   groupState (last cs) = Some s \<Longrightarrow> state g = Inr s"
  by (simp add: state_def changes_def bindE_def)

lemma state_Inr:
  "state g = Inr s \<Longrightarrow>
   \<exists>cs. privChanges g = Some \<lparr>groupChanges = Some cs\<rparr> \<and> cs \<noteq> [] \<and>
        groupState (last cs) = Some s"
  unfolding state_def changes_def
  by (auto simp: bindE_Inr split: option.splits if_splits) (metis GroupChanges.cases GroupChanges.select_convs(1))

lemma modify_Applied:
  assumes "modify ops g src pni acts now = (Inr (Applied c), g')"
  shows "\<exists>cs s v w entry. privChanges g = Some \<lparr>groupChanges = Some cs\<rparr> \<and> cs \<noteq> [] \<and>
     groupState (last cs) = Some s \<and> state g = Inr s \<and> version s = Some v \<and>
     act_version acts = Some (v + 1) \<and>
     applyActions ops g src pni acts now = Inr w \<and>
     groupState entry = Some (newState w) \<and>
     privChanges g' = Some \<lparr>groupChanges = Some (cs @ [entry])\<rparr> \<and>
     privPublicParams g' = privPublicParams g \<and>
     state g' = Inr (newState w)"
proof -
  from modify_cases [OF assms] obtain w s v ch cs0 where
    w: "applyActions ops g src pni acts now = Inr w" and
    s: "state g = Inr s" "version s = Some v" "act_version acts = Some (v + 1)" and
    ch: "privChanges g = Some ch" "groupChanges ch = Some cs0" and
    g': "g' = g\<lparr>privChanges := Some (ch\<lparr>groupChanges :=
                 Some (cs0 @ [\<lparr>groupChange = Some \<lparr>actions = encodeActions ops (appliedActions w),
                                  changeEpoch = w_changeEpoch w, serverSignature = None\<rparr>,
                              groupState = Some (newState w)\<rparr>])\<rparr>),
               nextOid := w_nextOid w\<rparr>"
    by auto
  from state_Inr [OF s(1)] obtain cs where
    cs: "privChanges g = Some \<lparr>groupChanges = Some cs\<rparr>" "cs \<noteq> []" "groupState (last cs) = Some s"
    by blast
  from cs ch have eq: "cs0 = cs" "ch = \<lparr>groupChanges = Some cs\<rparr>" by auto
  let ?e = "\<lparr>groupChange = Some \<lparr>actions = encodeActions ops (appliedActions w),
                                  changeEpoch = w_changeEpoch w, serverSignature = None\<rparr>,
                              groupState = Some (newState w)\<rparr>"
  have p: "privChanges g' = Some \<lparr>groupChanges = Some (cs @ [?e])\<rparr>"
    by (simp add: g' eq)
  have "state g' = Inr (newState w)"
    by (rule state_log [OF p]) simp_all
  with p cs s w g' show ?thesis by auto
qed

lemma reachable_log:
  "reachable ops g \<Longrightarrow>
   \<exists>cs. privChanges g = Some \<lparr>groupChanges = Some cs\<rparr> \<and> cs \<noteq> [] \<and>
        (\<forall>i<length cs. \<exists>s. groupState (cs ! i) = Some s \<and> version s = Some i)"
proof (induction rule: reachable.induct)
  case (constructed st g)
  from construct_Inr [OF this] show ?case by auto
next
  case (modified g sourceACI sourcePNI acts now r g')
  from modified.IH obtain cs where
    cs: "privChanges g = Some \<lparr>groupChanges = Some cs\<rparr>" "cs \<noteq> []"
      "\<forall>i<length cs. \<exists>s. groupState (cs ! i) = Some s \<and> version s = Some i"
    by blast
  show ?case
  proof (cases "\<exists>c. r = Inr (Applied c)")
    case False
    then have "g' = g" using modify_cases [OF modified.hyps(2)] by auto
    then show ?thesis using modified.IH by simp
  next
    case True
    then obtain c where "modify ops g sourceACI sourcePNI acts now = (Inr (Applied c), g')"
      using modified.hyps(2) by auto
    from modify_Applied [OF this] cs(1) obtain s v w entry where
      m: "groupState (last cs) = Some s" "version s = Some v" "act_version acts = Some (v + 1)"
        "applyActions ops g sourceACI sourcePNI acts now = Inr w"
        "groupState entry = Some (newState w)"
        "privChanges g' = Some \<lparr>groupChanges = Some (cs @ [entry])\<rparr>"
      by auto
    have "last cs = cs ! (length cs - 1)" using cs(2) by (simp add: last_conv_nth)
    with cs(2,3) m(1,2) have v: "v = length cs - 1"
      by (metis diff_less length_greater_0_conv option.inject zero_less_one)
    have nv: "version (newState w) = Some (length cs)"
      using applyActions_version [OF m(4)] m(3) v cs(2) by (cases cs) simp_all
    have "\<forall>i<length (cs @ [entry]).
        \<exists>s. groupState ((cs @ [entry]) ! i) = Some s \<and> version s = Some i"
      using cs(3) m(5) nv by (auto simp: nth_append less_Suc_eq)
    with m(6) show ?thesis by auto
  qed
qed

text \<open>
  Claim C8. In every instance the constructor and any calls of \<^verbatim>\<open>modify\<close> have made,
  the entry of the change log at index \<open>i\<close> holds a snapshot of version \<open>i\<close>. A call of
  \<^verbatim>\<open>modify\<close> that commits leaves the log it found, entry by entry, with one entry added
  at the end, whose version is the committed version plus one.
\<close>

theorem log_versions:
  assumes "reachable ops g"
  shows "(\<exists>cs. privChanges g = Some \<lparr>groupChanges = Some cs\<rparr> \<and>
            (\<forall>i<length cs. \<exists>s. groupState (cs ! i) = Some s \<and> version s = Some i)) \<and>
         (\<forall>sourceACI sourcePNI acts now c g'.
            modify ops g sourceACI sourcePNI acts now = (Inr (Applied c), g') \<longrightarrow>
            (\<exists>cs entry s s' v.
               privChanges g = Some \<lparr>groupChanges = Some cs\<rparr> \<and>
               privChanges g' = Some \<lparr>groupChanges = Some (cs @ [entry])\<rparr> \<and>
               state g = Inr s \<and> version s = Some v \<and>
               groupState entry = Some s' \<and> version s' = Some (v + 1)))"
proof (rule conjI)
  show "\<exists>cs. privChanges g = Some \<lparr>groupChanges = Some cs\<rparr> \<and>
            (\<forall>i<length cs. \<exists>s. groupState (cs ! i) = Some s \<and> version s = Some i)"
    using reachable_log [OF assms] by blast
next
  show "\<forall>sourceACI sourcePNI acts now c g'.
            modify ops g sourceACI sourcePNI acts now = (Inr (Applied c), g') \<longrightarrow>
            (\<exists>cs entry s s' v.
               privChanges g = Some \<lparr>groupChanges = Some cs\<rparr> \<and>
               privChanges g' = Some \<lparr>groupChanges = Some (cs @ [entry])\<rparr> \<and>
               state g = Inr s \<and> version s = Some v \<and>
               groupState entry = Some s' \<and> version s' = Some (v + 1))"
  proof (intro allI impI)
    fix sourceACI sourcePNI acts now c g'
    assume m: "modify ops g sourceACI sourcePNI acts now = (Inr (Applied c), g')"
    from modify_Applied [OF m] obtain cs s v w entry where
      f: "privChanges g = Some \<lparr>groupChanges = Some cs\<rparr>" "state g = Inr s" "version s = Some v"
        "act_version acts = Some (v + 1)"
        "applyActions ops g sourceACI sourcePNI acts now = Inr w"
        "groupState entry = Some (newState w)"
        "privChanges g' = Some \<lparr>groupChanges = Some (cs @ [entry])\<rparr>"
      by blast
    from applyActions_version [OF f(5)] f(4) have "version (newState w) = Some (v + 1)" by simp
    with f show "\<exists>cs entry s s' v.
               privChanges g = Some \<lparr>groupChanges = Some cs\<rparr> \<and>
               privChanges g' = Some \<lparr>groupChanges = Some (cs @ [entry])\<rparr> \<and>
               state g = Inr s \<and> version s = Some v \<and>
               groupState entry = Some s' \<and> version s' = Some (v + 1)"
      by blast
  qed
qed


text \<open>
  The toy instance is what the constructor returns, with a log of one entry of version
  0; the administrator's call with the version 1 and no sub-action commits.
\<close>

theorem log_versions_witness:
  "(\<exists>cs. privChanges (toyGroup AR_MEMBER) = Some \<lparr>groupChanges = Some cs\<rparr> \<and>
      (\<forall>i<length cs. \<exists>s. groupState (cs ! i) = Some s \<and> version s = Some i)) \<and>
   (\<exists>cs entry s s' v.
      privChanges (toyGroup AR_MEMBER) = Some \<lparr>groupChanges = Some cs\<rparr> \<and>
      privChanges (snd (modify toyOps (toyGroup AR_MEMBER) [1] [9] (emptyActions 1) 10))
        = Some \<lparr>groupChanges = Some (cs @ [entry])\<rparr> \<and>
      state (toyGroup AR_MEMBER) = Inr s \<and> version s = Some v \<and>
      groupState entry = Some s' \<and> version s' = Some (v + 1))"
proof -
  let ?G = "toyGroup AR_MEMBER"
  let ?C = "\<lparr>actions = [1], changeEpoch = 1, serverSignature = Some [1]\<rparr>"
  have r: "reachable toyOps ?G" by (rule reachable.constructed [OF toy_constructed])
  have "fst (modify toyOps ?G [1] [9] (emptyActions 1) 10) = Inr (Applied ?C)"
    by code_simp
  then have m: "modify toyOps ?G [1] [9] (emptyActions 1) 10
      = (Inr (Applied ?C), snd (modify toyOps ?G [1] [9] (emptyActions 1) 10))"
    by (simp add: prod_eq_iff)
  note l = log_versions [OF r]
  from l [THEN conjunct2, rule_format, OF m] l [THEN conjunct1]
  show ?thesis by (rule conjI [rotated])
qed

text \<open>
  Claim C10. In every instance the constructor and any calls of \<^verbatim>\<open>modify\<close> have made,
  the getter \<^verbatim>\<open>state\<close> returns the snapshot of the last entry of the change log. The
  constructor makes a log of one entry, which holds the initial state with the
  verified members; a call of \<^verbatim>\<open>modify\<close> that commits adds its new snapshot as the
  last entry, and \<^verbatim>\<open>state\<close> returns it from then on.
\<close>

theorem state_is_log_tail:
  "(reachable ops g \<longrightarrow>
      (\<exists>cs s. privChanges g = Some \<lparr>groupChanges = Some cs\<rparr> \<and> cs \<noteq> [] \<and>
         groupState (last cs) = Some s \<and> state g = Inr s)) \<and>
   (construct ops st = Inr g1 \<longrightarrow>
      (\<exists>s0. privChanges g1
               = Some \<lparr>groupChanges = Some [\<lparr>groupChange = None, groupState = Some s0\<rparr>]\<rparr> \<and>
         state g1 = Inr s0 \<and> s0 = st\<lparr>members := members s0\<rparr>)) \<and>
   (modify ops g2 sourceACI sourcePNI acts now = (Inr (Applied c), g2') \<longrightarrow>
      (\<exists>cs entry s'. privChanges g2 = Some \<lparr>groupChanges = Some cs\<rparr> \<and>
         privChanges g2' = Some \<lparr>groupChanges = Some (cs @ [entry])\<rparr> \<and>
         groupState entry = Some s' \<and> state g2' = Inr s'))"
proof (intro conjI impI)
  assume "reachable ops g"
  from reachable_log [OF this] obtain cs where
    cs: "privChanges g = Some \<lparr>groupChanges = Some cs\<rparr>" "cs \<noteq> []"
      "\<forall>i<length cs. \<exists>s. groupState (cs ! i) = Some s \<and> version s = Some i"
    by blast
  from cs(2,3) obtain s where s: "groupState (last cs) = Some s"
    by (metis diff_less last_conv_nth length_greater_0_conv zero_less_one)
  from state_log [OF cs(1,2) s] cs s
  show "\<exists>cs s. privChanges g = Some \<lparr>groupChanges = Some cs\<rparr> \<and> cs \<noteq> [] \<and>
         groupState (last cs) = Some s \<and> state g = Inr s"
    by blast
next
  assume "construct ops st = Inr g1"
  from construct_Inr [OF this] obtain pk ms where
    g1: "g1 = \<lparr>privChanges = Some \<lparr>groupChanges =
             Some [\<lparr>groupChange = None, groupState = Some (st\<lparr>members := ms\<rparr>)\<rparr>]\<rparr>,
          privPublicParams = Some pk, nextOid = freshOid st + length ms\<rparr>"
    by blast
  have "state g1 = Inr (st\<lparr>members := ms\<rparr>)"
    by (simp add: g1 state_def changes_def bindE_def)
  then show "\<exists>s0. privChanges g1
               = Some \<lparr>groupChanges = Some [\<lparr>groupChange = None, groupState = Some s0\<rparr>]\<rparr> \<and>
         state g1 = Inr s0 \<and> s0 = st\<lparr>members := members s0\<rparr>"
    by (intro exI [of _ "st\<lparr>members := ms\<rparr>"]) (simp add: g1)
next
  assume "modify ops g2 sourceACI sourcePNI acts now = (Inr (Applied c), g2')"
  from modify_Applied [OF this]
  show "\<exists>cs entry s'. privChanges g2 = Some \<lparr>groupChanges = Some cs\<rparr> \<and>
         privChanges g2' = Some \<lparr>groupChanges = Some (cs @ [entry])\<rparr> \<and>
         groupState entry = Some s' \<and> state g2' = Inr s'"
    by blast
qed

theorem state_is_log_tail_witness:
  "(\<exists>cs s. privChanges (toyGroup AR_MEMBER) = Some \<lparr>groupChanges = Some cs\<rparr> \<and> cs \<noteq> [] \<and>
      groupState (last cs) = Some s \<and> state (toyGroup AR_MEMBER) = Inr s) \<and>
   (\<exists>s0. privChanges (toyGroup AR_MEMBER)
            = Some \<lparr>groupChanges = Some [\<lparr>groupChange = None, groupState = Some s0\<rparr>]\<rparr> \<and>
      state (toyGroup AR_MEMBER) = Inr s0 \<and>
      s0 = (toyInit AR_MEMBER)\<lparr>members := members s0\<rparr>) \<and>
   (\<exists>cs entry s'. privChanges (toyGroup AR_MEMBER) = Some \<lparr>groupChanges = Some cs\<rparr> \<and>
      privChanges (snd (modify toyOps (toyGroup AR_MEMBER) [1] [9] (emptyActions 1) 10))
        = Some \<lparr>groupChanges = Some (cs @ [entry])\<rparr> \<and>
      groupState entry = Some s' \<and>
      state (snd (modify toyOps (toyGroup AR_MEMBER) [1] [9] (emptyActions 1) 10)) = Inr s')"
proof -
  let ?G = "toyGroup AR_MEMBER"
  let ?C = "\<lparr>actions = [1], changeEpoch = 1, serverSignature = Some [1]\<rparr>"
  have r: "reachable toyOps ?G" by (rule reachable.constructed [OF toy_constructed])
  have "fst (modify toyOps ?G [1] [9] (emptyActions 1) 10) = Inr (Applied ?C)"
    by code_simp
  then have m: "modify toyOps ?G [1] [9] (emptyActions 1) 10
      = (Inr (Applied ?C), snd (modify toyOps ?G [1] [9] (emptyActions 1) 10))"
    by (simp add: prod_eq_iff)
  note t = state_is_log_tail [of toyOps ?G "toyInit AR_MEMBER" ?G ?G "[1]" "[9]"
      "emptyActions 1" 10 ?C "snd (modify toyOps ?G [1] [9] (emptyActions 1) 10)"]
  from t [THEN conjunct1, THEN mp, OF r]
    t [THEN conjunct2, THEN conjunct1, THEN mp, OF toy_constructed]
    t [THEN conjunct2, THEN conjunct2, THEN mp, OF m]
  show ?thesis by (intro conjI)
qed

section \<open>Sub-actions that throw\<close>

lemma foldE_Inr_mem:
  assumes "foldE f xs w = Inr w'" and "x \<in> set xs"
  shows "\<exists>u u'. f x u = Inr u'"
proof (rule ccontr)
  assume "\<not> (\<exists>u u'. f x u = Inr u')"
  then have "\<And>u. \<exists>e. f x u = Inl e" by (metis sum.exhaust)
  from foldE_fails [of x xs f w, OF assms(2) this] assms(1) show False by simp
qed

lemma modify_throws:
  "applyActions ops g src pni acts now = Inl e \<Longrightarrow> modify ops g src pni acts now = (Inl e, g)"
  by (simp add: modify_def)

lemma getMember_Some:
  "getMember g u = Inr (Some m) \<Longrightarrow>
   userId (snd m) = Some u \<and> (\<exists>s. state g = Inr s \<and> m \<in> set (members s))"
  unfolding getMember_def
  by (auto simp: bindE_Inr find_Some_iff split: option.splits)

lemma getPendingMember_Some:
  "getPendingMember g u = Inr (Some p) \<Longrightarrow>
   pendingUserId (snd p) = Some u \<and>
   (\<exists>s. state g = Inr s \<and> p \<in> set (membersPendingProfileKey s))"
  unfolding getPendingMember_def
  by (auto simp: bindE_Inr find_Some_iff split: option.splits)

lemma verifyAccess_unsatisfiable:
  "verifyAccess attribute mem AR_UNSATISFIABLE affected = Inr u \<Longrightarrow>
   \<exists>m a. mem = Some m \<and> affected = Some a \<and> userId m = Some a"
  unfolding verifyAccess_def
  by (auto split: option.splits if_splits)

text \<open>
  Claim C5, as stated: under the members access level UNSATISFIABLE every call with a
  delete-member sub-action fails, also for a member who deletes itself. It fails on
  the toy instance with that level: the member \<open>[2]\<close> deletes itself, the call commits,
  and the new snapshot holds the administrator alone.
\<close>

theorem unsatisfiable_counterexample:
  "requiredAccess (accessControl (toyState AR_UNSATISFIABLE)) ac_members = AR_UNSATISFIABLE \<and>
   state (toyGroup AR_UNSATISFIABLE) = Inr (toyState AR_UNSATISFIABLE) \<and>
   fst (modify toyOps (toyGroup AR_UNSATISFIABLE) [2] [9]
          ((emptyActions 1)\<lparr>deleteMembers := [Some [2]]\<rparr>) 10)
     = Inr (Applied \<lparr>actions = [1], changeEpoch = 1, serverSignature = Some [1]\<rparr>) \<and>
   map_sum id memberIds
     (state (snd (modify toyOps (toyGroup AR_UNSATISFIABLE) [2] [9]
                    ((emptyActions 1)\<lparr>deleteMembers := [Some [2]]\<rparr>) 10)))
     = Inr [[1]]"
  by code_simp

text \<open>
  Claim C5, amended. Under the members access level UNSATISFIABLE, \<^verbatim>\<open>modify\<close> throws and
  leaves the instance as it was for every call with an add-pending-member sub-action,
  and for every call with a delete-member sub-action whose target is not the acting
  member's own identity (or whose sender is no member), whatever the acting member's
  role. A member's deletion of its own identity passes the access check.
\<close>

theorem unsatisfiable_members:
  assumes "state g = Inr s" and "accessControl s = Some ac"
    and "ac_members ac = Some AR_UNSATISFIABLE"
    and "addPendingMembers acts \<noteq> [] \<or>
         (\<exists>d \<in> set (deleteMembers acts). d \<noteq> Some sourceACI \<or> getMember g sourceACI = Inr None)"
  shows "\<exists>e. modify ops g sourceACI sourcePNI acts now = (Inl e, g)"
proof (cases "applyActions ops g sourceACI sourcePNI acts now")
  case (Inl e)
  then show ?thesis using modify_throws by blast
next
  case (Inr w)
  from Inr obtain s' auth w1 w2 w3 w4 w5 where
    "act_version acts \<noteq> None" and "act_version acts \<noteq> Some 0" and
    s': "state g = Inr s'" and auth: "getMember g sourceACI = Inr auth" and
    "modifyTitle_step (map_option snd auth) (accessControl s') (modifyTitle acts)
       (initialWork g s' sourceACI acts) = Inr w1" and
    del: "foldE (deleteMember_step ops g (map_option snd auth) (accessControl s'))
       (deleteMembers acts) w1 = Inr w2" and
    add: "foldE (addPendingMember_step (map_option snd auth) (accessControl s') sourceACI now)
       (addPendingMembers acts) w2 = Inr w3" and
    "foldE (deletePendingMember_step g sourceACI sourcePNI) (deletePendingMembers acts) w3
       = Inr w4" and
    "foldE (promotePendingMember_step ops g sourceACI) (promotePendingMembers acts) w4
       = Inr w5" and
    "foldE (promotePniAci_step ops g sourceACI sourcePNI)
       (promoteMembersPendingPniAciProfileKey acts) w5 = Inr w"
    by (rule applyActions_Inr)
  from s' assms(1) have [simp]: "s' = s" by simp
  have lvl: "requiredAccess (accessControl s) ac_members = AR_UNSATISFIABLE"
    using assms(2,3) by (simp add: requiredAccess_def)
  from assms(4) have False
  proof
    assume "addPendingMembers acts \<noteq> []"
    then obtain a where "a \<in> set (addPendingMembers acts)" by (cases "addPendingMembers acts") auto
    from foldE_Inr_mem [OF add this] obtain u u' where
      "addPendingMember_step (map_option snd auth) (accessControl s') sourceACI now a u = Inr u'"
      by blast
    from addPendingMember_step_Inr [OF this] lvl
    have "verifyAccess ''pendingMembers'' (map_option snd auth) AR_UNSATISFIABLE None = Inr ()"
      by auto
    from verifyAccess_unsatisfiable [OF this] show False by simp
  next
    assume "\<exists>d \<in> set (deleteMembers acts). d \<noteq> Some sourceACI \<or> getMember g sourceACI = Inr None"
    then obtain d where d: "d \<in> set (deleteMembers acts)"
      and other: "d \<noteq> Some sourceACI \<or> getMember g sourceACI = Inr None"
      by blast
    from foldE_Inr_mem [OF del d] obtain u u' where
      "deleteMember_step ops g (map_option snd auth) (accessControl s') d u = Inr u'"
      by blast
    from deleteMember_step_Inr [OF this] lvl obtain x where
      x: "d = Some x"
        "verifyAccess ''members'' (map_option snd auth) AR_UNSATISFIABLE (Some x) = Inr ()"
      by auto
    from verifyAccess_unsatisfiable [OF x(2)] obtain m where
      m: "map_option snd auth = Some m" "userId m = Some x"
      by auto
    from m(1) obtain mo where mo: "auth = Some mo" "snd mo = m" by auto
    from getMember_Some [of g sourceACI mo] auth mo m(2) have "x = sourceACI" by simp
    with x(1) other auth mo(1) show False by simp
  qed
  then show ?thesis ..
qed

text \<open>
  On the toy instance with the level UNSATISFIABLE the administrator \<open>[1]\<close> can neither
  invite \<open>[3]\<close> nor delete the member \<open>[2]\<close>.
\<close>

theorem unsatisfiable_members_witness:
  "(\<exists>e. modify toyOps (toyGroup AR_UNSATISFIABLE) [1] [9]
          ((emptyActions 1)\<lparr>addPendingMembers := [toyPending [3]]\<rparr>) 10
        = (Inl e, toyGroup AR_UNSATISFIABLE)) \<and>
   (\<exists>e. modify toyOps (toyGroup AR_UNSATISFIABLE) [1] [9]
          ((emptyActions 1)\<lparr>deleteMembers := [Some [2]]\<rparr>) 10
        = (Inl e, toyGroup AR_UNSATISFIABLE))"
proof -
  let ?G = "toyGroup AR_UNSATISFIABLE"
  let ?S = "toyState AR_UNSATISFIABLE"
  let ?ac = "\<lparr>ac_attributes = Some AR_ADMINISTRATOR, ac_members = Some AR_UNSATISFIABLE,
              ac_addFromInviteLink = Some AR_UNSATISFIABLE\<rparr>"
  have 1: "state ?G = Inr ?S" by code_simp
  have 2: "accessControl ?S = Some ?ac" by (simp add: toyState_def)
  have 3: "ac_members ?ac = Some AR_UNSATISFIABLE" by simp
  have 4: "addPendingMembers ((emptyActions 1)\<lparr>addPendingMembers := [toyPending [3]]\<rparr>) \<noteq> [] \<or>
      (\<exists>d \<in> set (deleteMembers ((emptyActions 1)\<lparr>addPendingMembers := [toyPending [3]]\<rparr>)).
         d \<noteq> Some [1] \<or> getMember ?G [1] = Inr None)"
    by simp
  have 5: "addPendingMembers ((emptyActions 1)\<lparr>deleteMembers := [Some [2]]\<rparr>) \<noteq> [] \<or>
      (\<exists>d \<in> set (deleteMembers ((emptyActions 1)\<lparr>deleteMembers := [Some [2]]\<rparr>)).
         d \<noteq> Some [1] \<or> getMember ?G [1] = Inr None)"
    by simp
  from unsatisfiable_members [OF 1 2 3 4, of toyOps "[9]" 10]
    unsatisfiable_members [OF 1 2 3 5, of toyOps "[9]" 10]
  show ?thesis by (rule conjI)
qed

section \<open>Promotion of a pending member\<close>

lemma foldE_establish:
  assumes "foldE f xs w = Inr w'" and "x \<in> set xs"
    and est: "\<And>u u'. f x u = Inr u' \<Longrightarrow> Q u'"
    and pres: "\<And>y u u'. y \<in> set xs \<Longrightarrow> Q u \<Longrightarrow> f y u = Inr u' \<Longrightarrow> Q u'"
  shows "Q w'"
  using assms(1,2) pres
proof (induction xs arbitrary: w)
  case Nil
  then show ?case by simp
next
  case (Cons y ys)
  from Cons.prems(1) obtain u where u: "f y w = Inr u" and rest: "foldE f ys u = Inr w'"
    by (auto split: sum.splits)
  have pres': "\<And>z v v'. z \<in> set ys \<Longrightarrow> Q v \<Longrightarrow> f z v = Inr v' \<Longrightarrow> Q v'"
    using Cons.prems(3) by (meson list.set_intros(2))
  show ?case
  proof (cases "x = y")
    case True
    with u est have "Q u" by simp
    from foldE_inv [OF rest, of Q, OF this] pres' show ?thesis by blast
  next
    case False
    with Cons.prems(2) have "x \<in> set ys" by simp
    from Cons.IH [OF rest this] pres' show ?thesis by blast
  qed
qed

text \<open>
  Claim C7, as stated: \<^verbatim>\<open>modify\<close> fails for a promote-pending-member sub-action whose
  identity is already an active member or is not currently pending. It fails on the
  toy instance whose administrator has invited \<open>[3]\<close>. When \<open>[3]\<close> promotes itself
  twice in one call, the second promotion runs when the first has already taken \<open>[3]\<close>
  out of the pending list and put it into the member list of the working copy; the
  call commits all the same, and \<open>[3]\<close> is a member twice. When \<open>[3]\<close> deletes its
  pending entry and promotes itself in one call, the promotion runs when \<open>[3]\<close> is no
  longer pending in the working copy, and the call commits. Both lookups read the
  committed snapshot.
\<close>

theorem promote_pending_counterexample:
  "fst (modify toyOps (toyInvited [3]) [3] [9]
          ((emptyActions 2)\<lparr>promotePendingMembers :=
                               [toyPromote [3, 7], toyPromote [3, 7]]\<rparr>) 10)
     = Inr (Applied \<lparr>actions = [2], changeEpoch = 1, serverSignature = Some [2]\<rparr>) \<and>
   map_sum id memberIds
     (state (snd (modify toyOps (toyInvited [3]) [3] [9]
                    ((emptyActions 2)\<lparr>promotePendingMembers :=
                                         [toyPromote [3, 7], toyPromote [3, 7]]\<rparr>) 10)))
     = Inr [[1], [2], [3], [3]] \<and>
   fst (modify toyOps (toyInvited [3]) [3] [9]
          ((emptyActions 2)\<lparr>deletePendingMembers := [Some [3]],
                             promotePendingMembers := [toyPromote [3, 7]]\<rparr>) 10)
     = Inr (Applied \<lparr>actions = [2], changeEpoch = 1, serverSignature = Some [2]\<rparr>) \<and>
   map_sum id memberIds
     (state (snd (modify toyOps (toyInvited [3]) [3] [9]
                    ((emptyActions 2)\<lparr>deletePendingMembers := [Some [3]],
                                       promotePendingMembers := [toyPromote [3, 7]]\<rparr>) 10)))
     = Inr [[1], [2], [3]]"
  by code_simp

text \<open>
  Claim C7, amended. A call of \<^verbatim>\<open>modify\<close> with a promote-pending-member sub-action throws
  and leaves the instance as it was when the presentation is absent, when the zkgroup
  library rejects it (its deserialisation, or its verification against the public
  parameters of the group), when the identity read from it is an active member of the
  committed snapshot, and when that identity is not pending in the committed snapshot;
  what the earlier sub-actions of the same call have done to the working copy is not
  looked at. When the call commits, the presentation has passed both steps of the
  verification, the pending entry found for the identity in the committed snapshot is
  no entry of the new pending list, and the new member list has a member with that
  identity, the role DEFAULT and the profile key read from the presentation.
\<close>

theorem promote_pending:
  "(p \<in> set (promotePendingMembers acts) \<and>
    (case ppm_presentation p of
       None \<Rightarrow> True
     | Some pres \<Rightarrow>
         \<not> validPresentation ops pres \<or>
         (\<exists>pp. privPublicParams g = Some pp \<and>
            \<not> verifyProfileKeyCredentialPresentation ops pp pres) \<or>
         (\<exists>m. getMember g (getUuidCiphertext ops pres) = Inr (Some m)) \<or>
         getPendingMember g (getUuidCiphertext ops pres) = Inr None)
      \<longrightarrow> (\<exists>e. modify ops g sourceACI sourcePNI acts now = (Inl e, g))) \<and>
   (modify ops g2 sourceACI2 sourcePNI2 acts2 now2 = (Inr (Applied c), g2') \<and>
    p2 \<in> set (promotePendingMembers acts2)
      \<longrightarrow> (\<exists>pres pp pend s'.
            ppm_presentation p2 = Some pres \<and>
            privPublicParams g2 = Some pp \<and>
            validPresentation ops pres \<and>
            verifyProfileKeyCredentialPresentation ops pp pres \<and>
            getMember g2 (getUuidCiphertext ops pres) = Inr None \<and>
            getPendingMember g2 (getUuidCiphertext ops pres) = Inr (Some pend) \<and>
            state g2' = Inr s' \<and>
            (\<forall>entry \<in> set (membersPendingProfileKey s'). fst entry \<noteq> fst pend) \<and>
            (\<exists>oid. (oid, \<lparr>userId = Some (getUuidCiphertext ops pres),
                           role = Some Role_DEFAULT,
                           profileKey = Some (getProfileKeyCiphertext ops pres),
                           presentation = None\<rparr>) \<in> set (members s'))))"
proof (rule conjI; rule impI)
  assume a: "p \<in> set (promotePendingMembers acts) \<and>
    (case ppm_presentation p of
       None \<Rightarrow> True
     | Some pres \<Rightarrow>
         \<not> validPresentation ops pres \<or>
         (\<exists>pp. privPublicParams g = Some pp \<and>
            \<not> verifyProfileKeyCredentialPresentation ops pp pres) \<or>
         (\<exists>m. getMember g (getUuidCiphertext ops pres) = Inr (Some m)) \<or>
         getPendingMember g (getUuidCiphertext ops pres) = Inr None)"
  show "\<exists>e. modify ops g sourceACI sourcePNI acts now = (Inl e, g)"
  proof (cases "applyActions ops g sourceACI sourcePNI acts now")
    case (Inl e)
    then show ?thesis using modify_throws by blast
  next
    case (Inr w)
    from Inr obtain s auth w1 w2 w3 w4 w5 where
      "act_version acts \<noteq> None" and "act_version acts \<noteq> Some 0" and
      "state g = Inr s" and "getMember g sourceACI = Inr auth" and
      "modifyTitle_step (map_option snd auth) (accessControl s) (modifyTitle acts)
         (initialWork g s sourceACI acts) = Inr w1" and
      "foldE (deleteMember_step ops g (map_option snd auth) (accessControl s))
         (deleteMembers acts) w1 = Inr w2" and
      "foldE (addPendingMember_step (map_option snd auth) (accessControl s) sourceACI now)
         (addPendingMembers acts) w2 = Inr w3" and
      "foldE (deletePendingMember_step g sourceACI sourcePNI) (deletePendingMembers acts) w3
         = Inr w4" and
      pr: "foldE (promotePendingMember_step ops g sourceACI) (promotePendingMembers acts) w4
         = Inr w5" and
      "foldE (promotePniAci_step ops g sourceACI sourcePNI)
         (promoteMembersPendingPniAciProfileKey acts) w5 = Inr w"
      by (rule applyActions_Inr)
    from a have "p \<in> set (promotePendingMembers acts)" by simp
    from foldE_Inr_mem [OF pr this] obtain u u' where
      "promotePendingMember_step ops g sourceACI p u = Inr u'"
      by blast
    from promotePendingMember_step_Inr [OF this] obtain pres pend where
      ok: "ppm_presentation p = Some pres" "verifiedPresentation ops g pres = Inr ()"
        "getUuidCiphertext ops pres = sourceACI"
        "getPendingMember g sourceACI = Inr (Some pend)" "getMember g sourceACI = Inr None"
      by blast
    from ok(2) obtain pp where
      "privPublicParams g = Some pp" "validPresentation ops pres"
      "verifyProfileKeyCredentialPresentation ops pp pres"
      unfolding verifiedPresentation_Inr by blast
    with a ok have False by auto
    then show ?thesis ..
  qed
next
  assume a: "modify ops g2 sourceACI2 sourcePNI2 acts2 now2 = (Inr (Applied c), g2') \<and>
    p2 \<in> set (promotePendingMembers acts2)"
  then have m: "modify ops g2 sourceACI2 sourcePNI2 acts2 now2 = (Inr (Applied c), g2')"
    and p2: "p2 \<in> set (promotePendingMembers acts2)"
    by simp_all
  from modify_Applied [OF m] obtain w where
    w: "applyActions ops g2 sourceACI2 sourcePNI2 acts2 now2 = Inr w" and
    st: "state g2' = Inr (newState w)"
    by blast
  from w obtain s auth w1 w2 w3 w4 w5 where
    "act_version acts2 \<noteq> None" and "act_version acts2 \<noteq> Some 0" and
    "state g2 = Inr s" and "getMember g2 sourceACI2 = Inr auth" and
    "modifyTitle_step (map_option snd auth) (accessControl s) (modifyTitle acts2)
       (initialWork g2 s sourceACI2 acts2) = Inr w1" and
    "foldE (deleteMember_step ops g2 (map_option snd auth) (accessControl s))
       (deleteMembers acts2) w1 = Inr w2" and
    "foldE (addPendingMember_step (map_option snd auth) (accessControl s) sourceACI2 now2)
       (addPendingMembers acts2) w2 = Inr w3" and
    "foldE (deletePendingMember_step g2 sourceACI2 sourcePNI2) (deletePendingMembers acts2) w3
       = Inr w4" and
    pr: "foldE (promotePendingMember_step ops g2 sourceACI2) (promotePendingMembers acts2) w4
       = Inr w5" and
    pn: "foldE (promotePniAci_step ops g2 sourceACI2 sourcePNI2)
       (promoteMembersPendingPniAciProfileKey acts2) w5 = Inr w"
    by (rule applyActions_Inr)
  from foldE_Inr_mem [OF pr p2] obtain u u' where
    "promotePendingMember_step ops g2 sourceACI2 p2 u = Inr u'"
    by blast
  from promotePendingMember_step_Inr [OF this] obtain pres pend where
    f: "ppm_presentation p2 = Some pres" "verifiedPresentation ops g2 pres = Inr ()"
      "getUuidCiphertext ops pres = sourceACI2"
      "getPendingMember g2 sourceACI2 = Inr (Some pend)" "getMember g2 sourceACI2 = Inr None"
    by blast
  from f(2) obtain pp where
    v: "privPublicParams g2 = Some pp" "validPresentation ops pres"
      "verifyProfileKeyCredentialPresentation ops pp pres"
    unfolding verifiedPresentation_Inr by blast
  let ?M = "\<lparr>userId = Some sourceACI2, role = Some Role_DEFAULT,
             profileKey = Some (getProfileKeyCiphertext ops pres), presentation = None\<rparr>"
  let ?Q = "\<lambda>u. (\<forall>entry \<in> set (membersPendingProfileKey (newState u)). fst entry \<noteq> fst pend) \<and>
                (\<exists>oid. (oid, ?M) \<in> set (members (newState u)))"
  have "?Q w5"
  proof (rule foldE_establish [OF pr p2, of ?Q])
    fix u u'
    assume "promotePendingMember_step ops g2 sourceACI2 p2 u = Inr u'"
    from promotePendingMember_step_Inr [OF this] f show "?Q u'" by auto
  next
    fix y u u'
    assume "?Q u" and "promotePendingMember_step ops g2 sourceACI2 y u = Inr u'"
    from promotePendingMember_step_Inr [OF this(2)] this(1) show "?Q u'" by auto
  qed
  have "?Q w"
  proof (rule foldE_inv [OF pn, of ?Q])
    show "?Q w5" by fact
  next
    fix x u u'
    assume "?Q u" and "promotePniAci_step ops g2 sourceACI2 sourcePNI2 x u = Inr u'"
    from promotePniAci_step_Inr [OF this(2)] this(1) show "?Q u'" by auto
  qed
  with f v st show "\<exists>pres pp pend s'.
            ppm_presentation p2 = Some pres \<and>
            privPublicParams g2 = Some pp \<and>
            validPresentation ops pres \<and>
            verifyProfileKeyCredentialPresentation ops pp pres \<and>
            getMember g2 (getUuidCiphertext ops pres) = Inr None \<and>
            getPendingMember g2 (getUuidCiphertext ops pres) = Inr (Some pend) \<and>
            state g2' = Inr s' \<and>
            (\<forall>entry \<in> set (membersPendingProfileKey s'). fst entry \<noteq> fst pend) \<and>
            (\<exists>oid. (oid, \<lparr>userId = Some (getUuidCiphertext ops pres),
                           role = Some Role_DEFAULT,
                           profileKey = Some (getProfileKeyCiphertext ops pres),
                           presentation = None\<rparr>) \<in> set (members s'))"
    by (intro exI [of _ pres] exI [of _ pp] exI [of _ pend] exI [of _ "newState w"]) simp
qed

text \<open>
  The identity \<open>[3]\<close> cannot promote itself on the toy instance, where it is not
  pending. Once the administrator has invited it, its promotion with the presentation
  \<open>[3, 8]\<close>, which does not verify against the public parameters \<open>[7]\<close>, throws; its
  promotion with \<open>[3, 7]\<close> commits, the pending entry is gone and \<open>[3]\<close> is a member
  with the role DEFAULT and the profile key \<open>[255, 3]\<close>.
\<close>

theorem promote_pending_witness:
  "(\<exists>e. modify toyOps (toyGroup AR_ADMINISTRATOR) [3] [9]
          ((emptyActions 1)\<lparr>promotePendingMembers := [toyPromote [3, 7]]\<rparr>) 10
        = (Inl e, toyGroup AR_ADMINISTRATOR)) \<and>
   (\<exists>e. modify toyOps (toyInvited [3]) [3] [9]
          ((emptyActions 2)\<lparr>promotePendingMembers := [toyPromote [3, 8]]\<rparr>) 10
        = (Inl e, toyInvited [3])) \<and>
   (\<exists>pres pp pend s'.
      ppm_presentation (toyPromote [3, 7]) = Some pres \<and>
      privPublicParams (toyInvited [3]) = Some pp \<and>
      validPresentation toyOps pres \<and>
      verifyProfileKeyCredentialPresentation toyOps pp pres \<and>
      getMember (toyInvited [3]) (getUuidCiphertext toyOps pres) = Inr None \<and>
      getPendingMember (toyInvited [3]) (getUuidCiphertext toyOps pres) = Inr (Some pend) \<and>
      state (snd (modify toyOps (toyInvited [3]) [3] [9]
                    ((emptyActions 2)\<lparr>promotePendingMembers := [toyPromote [3, 7]]\<rparr>) 10))
        = Inr s' \<and>
      (\<forall>entry \<in> set (membersPendingProfileKey s'). fst entry \<noteq> fst pend) \<and>
      (\<exists>oid. (oid, \<lparr>userId = Some (getUuidCiphertext toyOps pres),
                     role = Some Role_DEFAULT,
                     profileKey = Some (getProfileKeyCiphertext toyOps pres),
                     presentation = None\<rparr>) \<in> set (members s')))"
proof -
  let ?G = "toyGroup AR_ADMINISTRATOR"
  let ?I = "toyInvited [3]"
  let ?A1 = "(emptyActions 1)\<lparr>promotePendingMembers := [toyPromote [3, 7]]\<rparr>"
  let ?A2 = "(emptyActions 2)\<lparr>promotePendingMembers := [toyPromote [3, 7]]\<rparr>"
  let ?A3 = "(emptyActions 2)\<lparr>promotePendingMembers := [toyPromote [3, 8]]\<rparr>"
  let ?C = "\<lparr>actions = [2], changeEpoch = 1, serverSignature = Some [2]\<rparr>"
  have np: "getPendingMember ?G (getUuidCiphertext toyOps [3, 7]) = Inr None"
    by code_simp
  have pres: "ppm_presentation (toyPromote [3, 7]) = Some [3, 7]"
    by (simp add: toyPromote_def)
  have h1: "toyPromote [3, 7] \<in> set (promotePendingMembers ?A1) \<and>
    (case ppm_presentation (toyPromote [3, 7]) of
       None \<Rightarrow> True
     | Some pres \<Rightarrow>
         \<not> validPresentation toyOps pres \<or>
         (\<exists>pp. privPublicParams ?G = Some pp \<and>
            \<not> verifyProfileKeyCredentialPresentation toyOps pp pres) \<or>
         (\<exists>m. getMember ?G (getUuidCiphertext toyOps pres) = Inr (Some m)) \<or>
         getPendingMember ?G (getUuidCiphertext toyOps pres) = Inr None)"
    using np pres by simp
  have pp: "privPublicParams ?I = Some [7]" by code_simp
  have nv: "\<not> verifyProfileKeyCredentialPresentation toyOps [7] [3, 8]"
    by (simp add: toyOps_def)
  have pres3: "ppm_presentation (toyPromote [3, 8]) = Some [3, 8]"
    by (simp add: toyPromote_def)
  have h3: "toyPromote [3, 8] \<in> set (promotePendingMembers ?A3) \<and>
    (case ppm_presentation (toyPromote [3, 8]) of
       None \<Rightarrow> True
     | Some pres \<Rightarrow>
         \<not> validPresentation toyOps pres \<or>
         (\<exists>pp. privPublicParams ?I = Some pp \<and>
            \<not> verifyProfileKeyCredentialPresentation toyOps pp pres) \<or>
         (\<exists>m. getMember ?I (getUuidCiphertext toyOps pres) = Inr (Some m)) \<or>
         getPendingMember ?I (getUuidCiphertext toyOps pres) = Inr None)"
    using pp nv pres3 by simp
  have "fst (modify toyOps ?I [3] [9] ?A2 10) = Inr (Applied ?C)"
    by code_simp
  then have h2: "modify toyOps ?I [3] [9] ?A2 10
        = (Inr (Applied ?C), snd (modify toyOps ?I [3] [9] ?A2 10)) \<and>
      toyPromote [3, 7] \<in> set (promotePendingMembers ?A2)"
    by (simp add: prod_eq_iff)
  note t = promote_pending [of "toyPromote [3, 7]" ?A1 toyOps ?G "[3]" "[9]" 10
      ?I "[3]" "[9]" ?A2 10 ?C "snd (modify toyOps ?I [3] [9] ?A2 10)" "toyPromote [3, 7]"]
  note t3 = promote_pending [of "toyPromote [3, 8]" ?A3 toyOps ?I "[3]" "[9]" 10]
  from t [THEN conjunct1, THEN mp, OF h1] t3 [THEN conjunct1, THEN mp, OF h3]
    t [THEN conjunct2, THEN mp, OF h2]
  show ?thesis by (intro conjI)
qed

section \<open>Active and pending members\<close>

lemma set_map_filter: "set (List.map_filter f xs) = {b. \<exists>x \<in> set xs. f x = Some b}"
  by (induction xs) (auto split: option.splits)

lemma map_filter_append:
  "List.map_filter f (xs @ ys) = List.map_filter f xs @ List.map_filter f ys"
  by (induction xs) (auto split: option.splits)

lemma distinct_map_filter_filter:
  "distinct (List.map_filter f xs) \<Longrightarrow> distinct (List.map_filter f (filter p xs))"
  by (induction xs) (auto simp: set_map_filter split: option.splits)

lemma distinct_map_filter_unique:
  "distinct (List.map_filter f xs) \<Longrightarrow> x \<in> set xs \<Longrightarrow> y \<in> set xs \<Longrightarrow>
   f x = Some a \<Longrightarrow> f y = Some a \<Longrightarrow> x = y"
  by (induction xs) (auto simp: set_map_filter split: option.splits)

lemma foldE_prefix_gen:
  "foldE f xs w = Inr w' \<Longrightarrow> I pre w \<Longrightarrow>
   (\<And>ys x u u'. x \<in> set xs \<Longrightarrow> I ys u \<Longrightarrow> f x u = Inr u' \<Longrightarrow> I (ys @ [x]) u') \<Longrightarrow>
   I (pre @ xs) w'"
proof (induction xs arbitrary: pre w)
  case Nil
  then show ?case by simp
next
  case (Cons x xs)
  from Cons.prems(1) obtain u where u: "f x w = Inr u" and rest: "foldE f xs u = Inr w'"
    by (auto split: sum.splits)
  have "I (pre @ [x]) u" using Cons.prems(3) [of x pre w u] Cons.prems(2) u by simp
  moreover have "\<And>ys y v v'. y \<in> set xs \<Longrightarrow> I ys v \<Longrightarrow> f y v = Inr v' \<Longrightarrow> I (ys @ [y]) v'"
    using Cons.prems(3) by (meson list.set_intros(2))
  ultimately have "I ((pre @ [x]) @ xs) w'" using Cons.IH [OF rest] by blast
  then show ?case by simp
qed

lemma foldE_prefix:
  assumes "foldE f xs w = Inr w'" and "I [] w"
    and "\<And>ys x u u'. x \<in> set xs \<Longrightarrow> I ys u \<Longrightarrow> f x u = Inr u' \<Longrightarrow> I (ys @ [x]) u'"
  shows "I xs w'"
  using foldE_prefix_gen [of f xs w w' I "[]", OF assms(1,2)] assms(3) by simp


lemma pendingIds_subset:
  assumes "\<forall>e \<in> set (membersPendingProfileKey t).
             e \<in> set (membersPendingProfileKey s) \<or>
             (\<exists>a \<in> set U. pendingUserId (snd e) = Some a)"
  shows "set (pendingIds t) \<subseteq> set (pendingIds s) \<union> set U"
  using assms unfolding pendingIds_def set_map_filter by auto

lemma applyActions_keeps_apart:
  assumes st: "state g = Inr s" and dist: "distinct (pendingIds s)" and disj: "disjointIds s"
    and clean: "cleanBundle s sourceACI acts"
    and app: "applyActions ops g sourceACI sourcePNI acts now = Inr w"
  shows "distinct (pendingIds (newState w)) \<and> disjointIds (newState w)"
proof -
  let ?U = "addedIds acts"
  let ?addf = "\<lambda>a. case a of None \<Rightarrow> None | Some p \<Rightarrow> pendingUserId p"
  let ?i1 = "\<lambda>u. \<forall>e \<in> set (membersPendingProfileKey (newState u)).
                 e \<in> set (membersPendingProfileKey s) \<or>
                 (\<exists>a \<in> set ?U. pendingUserId (snd e) = Some a)"
  let ?i2 = "\<lambda>u. distinct (pendingIds (newState u))"
  let ?old = "\<lambda>u. set (members (newState u)) \<subseteq> set (members s)"
  let ?J = "\<lambda>u. ?i1 u \<and> ?i2 u \<and>
                 set (memberIds (newState u)) \<subseteq> set (memberIds s) \<union> {sourceACI} \<and>
                 (sourceACI \<in> set (memberIds (newState u))
                    \<longrightarrow> sourceACI \<notin> set (pendingIds (newState u)))"
  from clean have U: "distinct ?U" "set ?U \<inter> set (memberIds s) = {}"
      "set ?U \<inter> set (pendingIds s) = {}"
    and pniOnly: "promoteMembersPendingPniAciProfileKey acts \<noteq> [] \<Longrightarrow>
      promotePendingMembers acts = [] \<Longrightarrow>
      sourceACI \<notin> set (pendingIds s) \<and> sourceACI \<notin> set ?U"
    by (simp_all add: cleanBundle_def)
  from disj have MP: "set (memberIds s) \<inter> set (pendingIds s) = {}"
    by (simp add: disjointIds_def)
  from app obtain s' auth w1 w2 w3 w4 w5 where
    "act_version acts \<noteq> None" and "act_version acts \<noteq> Some 0" and
    s': "state g = Inr s'" and "getMember g sourceACI = Inr auth" and
    t: "modifyTitle_step (map_option snd auth) (accessControl s') (modifyTitle acts)
       (initialWork g s' sourceACI acts) = Inr w1" and
    d: "foldE (deleteMember_step ops g (map_option snd auth) (accessControl s'))
       (deleteMembers acts) w1 = Inr w2" and
    a: "foldE (addPendingMember_step (map_option snd auth) (accessControl s') sourceACI now)
       (addPendingMembers acts) w2 = Inr w3" and
    dp: "foldE (deletePendingMember_step g sourceACI sourcePNI) (deletePendingMembers acts) w3
       = Inr w4" and
    e: "foldE (promotePendingMember_step ops g sourceACI) (promotePendingMembers acts) w4
       = Inr w5" and
    f: "foldE (promotePniAci_step ops g sourceACI sourcePNI)
       (promoteMembersPendingPniAciProfileKey acts) w5 = Inr w"
    by (rule applyActions_Inr)
  from s' st have [simp]: "s' = s" by simp
  \<comment> \<open>the title\<close>
  have w1: "members (newState w1) = members s"
      "membersPendingProfileKey (newState w1) = membersPendingProfileKey s"
    using modifyTitle_step_Inr [OF t] by (auto simp: initialWork_def)
  \<comment> \<open>the deletions of members\<close>
  have w2: "?old w2 \<and> membersPendingProfileKey (newState w2) = membersPendingProfileKey s"
  proof (rule foldE_inv [OF d])
    show "?old w1 \<and> membersPendingProfileKey (newState w1) = membersPendingProfileKey s"
      using w1 by simp
  next
    fix x u u'
    assume "?old u \<and> membersPendingProfileKey (newState u) = membersPendingProfileKey s"
      and "deleteMember_step ops g (map_option snd auth) (accessControl s') x u = Inr u'"
    from deleteMember_step_Inr [OF this(2)] this(1)
    show "?old u' \<and> membersPendingProfileKey (newState u') = membersPendingProfileKey s"
      by auto
  qed
  \<comment> \<open>the additions of pending members\<close>
  let ?IA = "\<lambda>ys u. ?old u \<and> ?i1 u \<and>
      pendingIds (newState u) = pendingIds s @ List.map_filter ?addf ys"
  have "?IA (addPendingMembers acts) w3"
  proof (rule foldE_prefix [OF a, of ?IA])
    show "?IA [] w2" using w2 by (simp add: pendingIds_def)
  next
    fix ys x u u'
    assume x: "x \<in> set (addPendingMembers acts)" and I: "?IA ys u"
      and "addPendingMember_step (map_option snd auth) (accessControl s') sourceACI now x u
             = Inr u'"
    from addPendingMember_step_Inr [OF this(3)] obtain added m uid r where
      s: "x = Some added" "pm_member added = Some m" "userId m = Some uid" and
      u': "u' = u\<lparr>newState := (newState u)
              \<lparr>membersPendingProfileKey := membersPendingProfileKey (newState u)
                 @ [(w_nextOid u,
                     \<lparr>pm_member = Some \<lparr>userId = Some uid, role = Some r,
                                        profileKey = None, presentation = None\<rparr>,
                      pm_addedByUserId = Some sourceACI, pm_timestamp = Some now\<rparr>)]\<rparr>,
            appliedActions := (appliedActions u)
              \<lparr>addPendingMembers := addPendingMembers (appliedActions u)
                 @ [Some \<lparr>pm_member = Some \<lparr>userId = Some uid, role = Some r,
                                        profileKey = None, presentation = None\<rparr>,
                      pm_addedByUserId = Some sourceACI, pm_timestamp = Some now\<rparr>]\<rparr>,
            w_nextOid := Suc (w_nextOid u)\<rparr>"
      by blast
    have fx: "?addf x = Some uid" using s by (simp add: pendingUserId_def)
    with x have inU: "uid \<in> set ?U"
      unfolding addedIds_def set_map_filter by blast
    have "pendingIds (newState u') = pendingIds (newState u) @ [uid]"
      by (simp add: u' pendingIds_def map_filter_append pendingUserId_def)
    moreover have "List.map_filter ?addf (ys @ [x]) = List.map_filter ?addf ys @ [uid]"
      using fx by (simp add: map_filter_append)
    moreover have "?i1 u'" using I inU by (auto simp: u' pendingUserId_def)
    moreover have "?old u'" using I by (simp add: u')
    ultimately show "?IA (ys @ [x]) u'" using I by simp
  qed
  then have w3: "?old w3" "?i1 w3" "pendingIds (newState w3) = pendingIds s @ ?U"
    by (simp_all add: addedIds_def)
  have w3d: "?i2 w3" using w3(3) dist U by auto
  \<comment> \<open>the deletions of pending members\<close>
  have w4: "?old w4 \<and> ?i1 w4 \<and> ?i2 w4"
  proof (rule foldE_inv [OF dp])
    show "?old w3 \<and> ?i1 w3 \<and> ?i2 w3" using w3 w3d by simp
  next
    fix x u u'
    assume I: "?old u \<and> ?i1 u \<and> ?i2 u"
      and "deletePendingMember_step g sourceACI sourcePNI x u = Inr u'"
    from deletePendingMember_step_Inr [OF this(2)] I
    show "?old u' \<and> ?i1 u' \<and> ?i2 u'"
      by (auto simp: pendingIds_def intro: distinct_map_filter_filter)
  qed
  have sub: "\<And>u. ?i1 u \<Longrightarrow> set (pendingIds (newState u)) \<subseteq> set (pendingIds s) \<union> set ?U"
    by (rule pendingIds_subset)
  have oldIds: "\<And>u. ?old u \<Longrightarrow> set (memberIds (newState u)) \<subseteq> set (memberIds s)"
    unfolding memberIds_def set_map_filter by auto
  \<comment> \<open>the promotions\<close>
  have J4: "?J w4"
  proof -
    have "set (memberIds (newState w4)) \<subseteq> set (memberIds s)" using w4 oldIds by blast
    moreover have "set (pendingIds (newState w4)) \<subseteq> set (pendingIds s) \<union> set ?U"
      using w4 sub by blast
    ultimately show ?thesis using w4 MP U(2) by blast
  qed
  let ?IE = "\<lambda>(ys::PromotePendingMemberAction list) u. ?J u \<and> (ys \<noteq> [] \<longrightarrow> sourceACI \<in> set (memberIds (newState u)))"
  have "?IE (promotePendingMembers acts) w5"
  proof (rule foldE_prefix [OF e, of ?IE])
    show "?IE [] w4" using J4 by simp
  next
    fix ys x u u'
    assume I: "?IE ys u" and "promotePendingMember_step ops g sourceACI x u = Inr u'"
    from promotePendingMember_step_Inr [OF this(2)] obtain pres pend where
      pend: "getPendingMember g sourceACI = Inr (Some pend)" and
      u': "u' = u\<lparr>newState := (newState u)
              \<lparr>membersPendingProfileKey :=
                 filter (\<lambda>entry. fst entry \<noteq> fst pend) (membersPendingProfileKey (newState u)),
               members := members (newState u)
                 @ [(w_nextOid u,
                     \<lparr>userId = Some sourceACI, role = Some Role_DEFAULT,
                      profileKey = Some (getProfileKeyCiphertext ops pres),
                      presentation = None\<rparr>)]\<rparr>,
            appliedActions := (appliedActions u)
              \<lparr>promotePendingMembers := promotePendingMembers (appliedActions u)
                 @ [\<lparr>ppm_presentation = None, ppm_userId = Some sourceACI,
                      ppm_profileKey = Some (getProfileKeyCiphertext ops pres)\<rparr>]\<rparr>,
            w_nextOid := Suc (w_nextOid u)\<rparr>"
      by blast
    from getPendingMember_Some [OF pend] st have
      pin: "pend \<in> set (membersPendingProfileKey s)" "pendingUserId (snd pend) = Some sourceACI"
      by auto
    then have srcP: "sourceACI \<in> set (pendingIds s)"
      unfolding pendingIds_def set_map_filter by blast
    with U(3) have srcU: "sourceACI \<notin> set ?U" by blast
    have i1: "?i1 u'" using I by (auto simp: u')
    have i2: "?i2 u'" using I by (auto simp: u' pendingIds_def intro: distinct_map_filter_filter)
    have mem: "set (memberIds (newState u')) = set (memberIds (newState u)) \<union> {sourceACI}"
      by (auto simp: u' memberIds_def map_filter_append)
    have gone: "sourceACI \<notin> set (pendingIds (newState u'))"
    proof
      assume "sourceACI \<in> set (pendingIds (newState u'))"
      then obtain en where en: "en \<in> set (membersPendingProfileKey (newState u))"
          "fst en \<noteq> fst pend" "pendingUserId (snd en) = Some sourceACI"
        unfolding pendingIds_def set_map_filter by (force simp: u')
      with I srcU have "en \<in> set (membersPendingProfileKey s)" by auto
      from distinct_map_filter_unique [OF dist [unfolded pendingIds_def] this pin(1) en(3) pin(2)]
        en(2) show False by simp
    qed
    show "?IE (ys @ [x]) u'" using i1 i2 mem gone I by auto
  qed
  then have J5: "?J w5"
    and prom: "promotePendingMembers acts \<noteq> [] \<Longrightarrow> sourceACI \<in> set (memberIds (newState w5))"
    by simp_all
  \<comment> \<open>the promotions across identity spaces\<close>
  have Jw: "?J w"
  proof (cases "promoteMembersPendingPniAciProfileKey acts = []")
    case True
    with f J5 show ?thesis by simp
  next
    case False
    let ?JF = "\<lambda>u. ?J u \<and> (sourceACI \<in> set (memberIds (newState u)) \<or>
                  (sourceACI \<notin> set (pendingIds s) \<and> sourceACI \<notin> set ?U))"
    have "?JF w"
    proof (rule foldE_inv [OF f, of ?JF])
      show "?JF w5"
      proof (cases "promotePendingMembers acts = []")
        case True
        from pniOnly [OF False True] J5 show ?thesis by simp
      next
        case False
        from prom [OF False] J5 show ?thesis by simp
      qed
    next
      fix x u u'
      assume I: "?JF u" and "promotePniAci_step ops g sourceACI sourcePNI x u = Inr u'"
      from promotePniAci_step_Inr [OF this(2)] obtain pres and pend :: "PendingMember obj" where
        u': "u' = u\<lparr>newState := (newState u)
              \<lparr>membersPendingProfileKey :=
                 filter (\<lambda>entry. fst entry \<noteq> fst pend) (membersPendingProfileKey (newState u)),
               members := members (newState u)
                 @ [(w_nextOid u,
                     \<lparr>userId = Some sourceACI, role = Some Role_DEFAULT,
                      profileKey = Some (getProfileKeyCiphertext ops pres),
                      presentation = None\<rparr>)]\<rparr>,
            w_changeEpoch := max (w_changeEpoch u) 5,
            appliedActions := (appliedActions u)
              \<lparr>sourceUuid := Some sourcePNI,
               promoteMembersPendingPniAciProfileKey :=
                 promoteMembersPendingPniAciProfileKey (appliedActions u)
                 @ [\<lparr>ppa_presentation = None, ppa_userId = Some sourceACI,
                      ppa_pni = Some sourcePNI,
                      ppa_profileKey = Some (getProfileKeyCiphertext ops pres)\<rparr>]\<rparr>,
            w_nextOid := Suc (w_nextOid u)\<rparr>"
        by blast
      have i1: "?i1 u'" using I by (auto simp: u')
      have i2: "?i2 u'" using I by (auto simp: u' pendingIds_def intro: distinct_map_filter_filter)
      have mem: "set (memberIds (newState u')) = set (memberIds (newState u)) \<union> {sourceACI}"
        by (auto simp: u' memberIds_def map_filter_append)
      have shrink: "set (pendingIds (newState u')) \<subseteq> set (pendingIds (newState u))"
        unfolding pendingIds_def set_map_filter by (force simp: u')
      have "sourceACI \<notin> set (pendingIds (newState u))"
      proof (cases "sourceACI \<in> set (memberIds (newState u))")
        case True
        with I show ?thesis by simp
      next
        case False
        with I have "sourceACI \<notin> set (pendingIds s) \<and> sourceACI \<notin> set ?U" by simp
        moreover have "set (pendingIds (newState u)) \<subseteq> set (pendingIds s) \<union> set ?U"
          using I sub by blast
        ultimately show ?thesis by blast
      qed
      with shrink have gone: "sourceACI \<notin> set (pendingIds (newState u'))" by blast
      show "?JF u'" using i1 i2 mem gone I by auto
    qed
    then show ?thesis by simp
  qed
  \<comment> \<open>the new snapshot\<close>
  have subw: "set (pendingIds (newState w)) \<subseteq> set (pendingIds s) \<union> set ?U"
    using Jw sub by blast
  have "set (memberIds (newState w)) \<inter> set (pendingIds (newState w)) = {}"
  proof (rule ccontr)
    assume "set (memberIds (newState w)) \<inter> set (pendingIds (newState w)) \<noteq> {}"
    then obtain x where x: "x \<in> set (memberIds (newState w))" "x \<in> set (pendingIds (newState w))"
      by blast
    show False
    proof (cases "x = sourceACI")
      case True
      with x Jw show False by simp
    next
      case False
      with x(1) Jw have "x \<in> set (memberIds s)" by blast
      moreover from x(2) subw have "x \<in> set (pendingIds s) \<union> set ?U" by blast
      ultimately show False using MP U(2) by blast
    qed
  qed
  with Jw show ?thesis by (simp add: disjointIds_def)
qed


text \<open>
  Claim C3, as stated: in every state reached by the constructor and by calls of
  \<^verbatim>\<open>modify\<close> that commit, no identity is both an active and a pending member. It fails
  after one call on the toy instance: the administrator \<open>[1]\<close> adds its own identity
  as a pending member, no check of the sub-action looks at the members, the call
  commits, and \<open>[1]\<close> is active and pending in the new snapshot.
\<close>

theorem disjoint_counterexample:
  "construct toyOps (toyInit AR_ADMINISTRATOR) = Inr (toyGroup AR_ADMINISTRATOR) \<and>
   modify toyOps (toyGroup AR_ADMINISTRATOR) [1] [9]
       ((emptyActions 1)\<lparr>addPendingMembers := [toyPending [1]]\<rparr>) 10
     = (Inr (Applied \<lparr>actions = [1], changeEpoch = 1, serverSignature = Some [1]\<rparr>),
        toyInvited [1]) \<and>
   state (toyInvited [1]) = Inr (toyInvitedState [1]) \<and>
   memberIds (toyInvitedState [1]) = [[1], [2]] \<and>
   pendingIds (toyInvitedState [1]) = [[1]] \<and>
   \<not> disjointIds (toyInvitedState [1])"
proof -
  have "fst (modify toyOps (toyGroup AR_ADMINISTRATOR) [1] [9]
       ((emptyActions 1)\<lparr>addPendingMembers := [toyPending [1]]\<rparr>) 10)
     = Inr (Applied \<lparr>actions = [1], changeEpoch = 1, serverSignature = Some [1]\<rparr>)"
    by code_simp
  then have 1: "modify toyOps (toyGroup AR_ADMINISTRATOR) [1] [9]
       ((emptyActions 1)\<lparr>addPendingMembers := [toyPending [1]]\<rparr>) 10
     = (Inr (Applied \<lparr>actions = [1], changeEpoch = 1, serverSignature = Some [1]\<rparr>),
        toyInvited [1])"
    by (simp add: prod_eq_iff toyInvited_def)
  have 2: "state (toyInvited [1]) = Inr (toyInvitedState [1])" by code_simp
  have 3: "memberIds (toyInvitedState [1]) = [[1], [2]]" by code_simp
  have 4: "pendingIds (toyInvitedState [1]) = [[1]]" by code_simp
  have 5: "\<not> disjointIds (toyInvitedState [1])" by (simp add: disjointIds_def 3 4)
  from toy_constructed 1 2 3 4 5 show ?thesis by blast
qed

text \<open>
  Claim C3, amended. Neither the constructor nor the add-pending-member sub-action nor
  the promotion across identity spaces checks that an identity it makes pending or
  active is not the other already. The active and the pending members are disjoint
  by identity (and no identity is pending twice) in every state reached from a
  constructor call whose snapshot is so, by calls of \<^verbatim>\<open>modify\<close> whose bundles add as
  pending only identities that are new (added once, neither active nor pending), and
  use a promotion across identity spaces without a promotion of a pending member only
  for a sender that is neither pending nor added as pending.
\<close>

theorem disjoint_when_clean:
  assumes "cleanlyReachable ops g"
  shows "\<exists>s. state g = Inr s \<and> disjointIds s \<and> distinct (pendingIds s)"
  using assms
proof (induction rule: cleanlyReachable.induct)
  case (clean_constructed st g s)
  then show ?case by blast
next
  case (clean_modified g s sourceACI acts sourcePNI now r g')
  from clean_modified.IH clean_modified.hyps(2)
  have s: "disjointIds s" "distinct (pendingIds s)" by auto
  show ?case
  proof (cases "\<exists>c. r = Inr (Applied c)")
    case False
    then have "g' = g" using modify_cases [OF clean_modified.hyps(4)] by auto
    with clean_modified.hyps(2) s show ?thesis by blast
  next
    case True
    then obtain c where "modify ops g sourceACI sourcePNI acts now = (Inr (Applied c), g')"
      using clean_modified.hyps(4) by auto
    from modify_Applied [OF this] obtain w where
      w: "applyActions ops g sourceACI sourcePNI acts now = Inr w" "state g' = Inr (newState w)"
      by blast
    from applyActions_keeps_apart [OF clean_modified.hyps(2) s(2) s(1) clean_modified.hyps(3) w(1)]
      w(2) show ?thesis by blast
  qed
qed

text \<open>
  The toy instance after its administrator has invited the new identity \<open>[3]\<close>.
\<close>

theorem disjoint_when_clean_witness:
  "cleanlyReachable toyOps (toyInvited [3]) \<and>
   (\<exists>s. state (toyInvited [3]) = Inr s \<and> disjointIds s \<and> distinct (pendingIds s))"
proof -
  let ?G = "toyGroup AR_ADMINISTRATOR"
  let ?S = "toyState AR_ADMINISTRATOR"
  let ?A = "(emptyActions 1)\<lparr>addPendingMembers := [toyPending [3]]\<rparr>"
  have 1: "state ?G = Inr ?S" by code_simp
  have 2: "distinct (pendingIds ?S)" by code_simp
  have m: "memberIds ?S = [[1], [2]]" by code_simp
  have p: "pendingIds ?S = []" by code_simp
  have a: "addedIds ?A = [[3]]" by code_simp
  have 3: "disjointIds ?S" by (simp add: disjointIds_def p)
  have e: "promoteMembersPendingPniAciProfileKey ?A = []" by (simp add: emptyActions_def)
  have 4: "cleanBundle ?S [1] ?A" unfolding cleanBundle_def m p a e by simp
  have 5: "modify toyOps ?G [1] [9] ?A 10
      = (fst (modify toyOps ?G [1] [9] ?A 10), toyInvited [3])"
    by (simp add: toyInvited_def)
  have r: "cleanlyReachable toyOps (toyInvited [3])"
    by (rule clean_modified [OF clean_constructed [OF toy_constructed 1 2 3] 1 4 5])
  from r disjoint_when_clean [OF r] show ?thesis by (rule conjI)
qed

section \<open>What the sub-actions of one call see\<close>

lemma isl_bindE_indep:
  "(\<And>x. isl (f x) = b) \<Longrightarrow> isl m = a \<Longrightarrow> isl (bindE m f) = (a \<or> b)"
  by (cases m) (auto simp: bindE_def)

lemma bindE_simps: "bindE (Inr x) f = f x" "bindE (Inl e) f = Inl e"
  by (simp_all add: bindE_def)

lemma initialWork_accessControl:
  "accessControl (newState (initialWork g s src acts)) = accessControl s"
  by (simp add: initialWork_def)

lemma foldE_isl_indep:
  assumes "\<And>x u u'. isl (f x u) = isl (f x u')"
  shows "isl (foldE f xs w) = isl (foldE f xs w')"
proof (induction xs arbitrary: w w')
  case Nil
  show ?case by simp
next
  case (Cons x xs)
  show ?case
  proof (cases "f x w")
    case (Inl e)
    then have "isl (f x w')" using assms [of x w w'] by simp
    then obtain e' where "f x w' = Inl e'" by (auto simp: isl_def)
    with Inl show ?thesis by simp
  next
    case (Inr u)
    then have "\<not> isl (f x w')" using assms [of x w w'] by simp
    then obtain u' where "f x w' = Inr u'" by (cases "f x w'") auto
    with Inr Cons.IH [of u u'] show ?thesis by simp
  qed
qed

lemma deleteMember_step_indep:
  "isl (deleteMember_step ops g auth ac d w) = isl (deleteMember_step ops g auth ac d w')"
  unfolding deleteMember_step_def bindE_def
  by (simp split: option.splits sum.splits)

lemma addPendingMember_step_indep:
  "isl (addPendingMember_step auth ac src now a w) = isl (addPendingMember_step auth ac src now a w')"
  unfolding addPendingMember_step_def bindE_def
  by (auto simp: Let_def split: option.splits sum.splits)

lemma deletePendingMember_step_indep:
  "isl (deletePendingMember_step g src pni d w) = isl (deletePendingMember_step g src pni d w')"
  unfolding deletePendingMember_step_def bindE_def
  by (simp split: option.splits sum.splits)

lemma promotePendingMember_step_indep:
  "isl (promotePendingMember_step ops g src a w) = isl (promotePendingMember_step ops g src a w')"
  unfolding promotePendingMember_step_def bindE_def
  by (simp add: Let_def split: option.splits sum.splits)

lemma promotePniAci_step_indep:
  "isl (promotePniAci_step ops g src pni a w) = isl (promotePniAci_step ops g src pni a w')"
  unfolding promotePniAci_step_def bindE_def
  by (simp add: Let_def split: option.splits sum.splits)

text \<open>
  Claim C4, as stated: a later sub-action is evaluated against the working copy with
  the effects of the earlier sub-actions of the same call, so that a promotion after a
  deletion sees the member as deleted. It fails on the toy instance whose
  administrator has invited the member \<open>[2]\<close>: when \<open>[2]\<close> deletes itself and promotes
  itself in one call, the promotion still finds \<open>[2]\<close> among the members of the
  committed snapshot and throws, whereas the deletion alone commits and the promotion
  commits in a call after it. A second deletion of \<open>[2]\<close> in the same call still finds
  the member, too.
\<close>

theorem working_copy_counterexample:
  "fst (modify toyOps (toyInvited [2]) [2] [9]
          ((emptyActions 2)\<lparr>deleteMembers := [Some [2]],
                             promotePendingMembers := [toyPromote [2, 7]]\<rparr>) 10)
     = Inl (AssertionError ''Member is both pending and active'') \<and>
   fst (modify toyOps (toyInvited [2]) [2] [9]
          ((emptyActions 2)\<lparr>deleteMembers := [Some [2]]\<rparr>) 10)
     = Inr (Applied \<lparr>actions = [2], changeEpoch = 1, serverSignature = Some [2]\<rparr>) \<and>
   fst (modify toyOps
          (snd (modify toyOps (toyInvited [2]) [2] [9]
                  ((emptyActions 2)\<lparr>deleteMembers := [Some [2]]\<rparr>) 10))
          [2] [9] ((emptyActions 3)\<lparr>promotePendingMembers := [toyPromote [2, 7]]\<rparr>) 10)
     = Inr (Applied \<lparr>actions = [3], changeEpoch = 1, serverSignature = Some [3]\<rparr>) \<and>
   fst (modify toyOps (toyInvited [2]) [2] [9]
          ((emptyActions 2)\<lparr>deleteMembers := [Some [2], Some [2]]\<rparr>) 10)
     = Inr (Applied \<lparr>actions = [2], changeEpoch = 1, serverSignature = Some [2]\<rparr>)"
  by code_simp

lemma modify_throws_iff:
  assumes "state g = Inr s" and "getMember g sourceACI = Inr found"
  shows "isl (fst (modify ops g sourceACI sourcePNI acts now)) \<longleftrightarrow>
     act_version acts = None \<or> act_version acts = Some 0 \<or>
     isl (modifyTitle_step (map_option snd found) (accessControl s) (modifyTitle acts)
            (initialWork g s sourceACI acts)) \<or>
     isl (foldE (deleteMember_step ops g (map_option snd found) (accessControl s))
            (deleteMembers acts) (initialWork g s sourceACI acts)) \<or>
     isl (foldE (addPendingMember_step (map_option snd found) (accessControl s) sourceACI now)
            (addPendingMembers acts) (initialWork g s sourceACI acts)) \<or>
     isl (foldE (deletePendingMember_step g sourceACI sourcePNI)
            (deletePendingMembers acts) (initialWork g s sourceACI acts)) \<or>
     isl (foldE (promotePendingMember_step ops g sourceACI)
            (promotePendingMembers acts) (initialWork g s sourceACI acts)) \<or>
     isl (foldE (promotePniAci_step ops g sourceACI sourcePNI)
            (promoteMembersPendingPniAciProfileKey acts) (initialWork g s sourceACI acts)) \<or>
     version s = None"
proof -
  define w0 where "w0 = initialWork g s sourceACI acts"
  define T where "T = modifyTitle_step (map_option snd found) (accessControl s) (modifyTitle acts)"
  define D where "D = foldE (deleteMember_step ops g (map_option snd found) (accessControl s))
            (deleteMembers acts)"
  define A where "A = foldE (addPendingMember_step (map_option snd found) (accessControl s)
            sourceACI now) (addPendingMembers acts)"
  define DP where "DP = foldE (deletePendingMember_step g sourceACI sourcePNI)
            (deletePendingMembers acts)"
  define P where "P = foldE (promotePendingMember_step ops g sourceACI)
            (promotePendingMembers acts)"
  define Q where "Q = foldE (promotePniAci_step ops g sourceACI sourcePNI)
            (promoteMembersPendingPniAciProfileKey acts)"
  have iD: "\<And>w. isl (D w) = isl (D w0)"
    unfolding D_def by (rule foldE_isl_indep) (rule deleteMember_step_indep)
  have iA: "\<And>w. isl (A w) = isl (A w0)"
    unfolding A_def by (rule foldE_isl_indep) (rule addPendingMember_step_indep)
  have iDP: "\<And>w. isl (DP w) = isl (DP w0)"
    unfolding DP_def by (rule foldE_isl_indep) (rule deletePendingMember_step_indep)
  have iP: "\<And>w. isl (P w) = isl (P w0)"
    unfolding P_def by (rule foldE_isl_indep) (rule promotePendingMember_step_indep)
  have iQ: "\<And>w. isl (Q w) = isl (Q w0)"
    unfolding Q_def by (rule foldE_isl_indep) (rule promotePniAci_step_indep)
  have 5: "\<And>w. isl (bindE (P w) Q) = (isl (P w0) \<or> isl (Q w0))"
    by (rule isl_bindE_indep [OF iQ iP])
  have 4: "\<And>w. isl (bindE (DP w) (\<lambda>w4. bindE (P w4) Q))
      = (isl (DP w0) \<or> isl (P w0) \<or> isl (Q w0))"
    by (rule isl_bindE_indep [OF 5 iDP])
  have 3: "\<And>w. isl (bindE (A w) (\<lambda>w3. bindE (DP w3) (\<lambda>w4. bindE (P w4) Q)))
      = (isl (A w0) \<or> isl (DP w0) \<or> isl (P w0) \<or> isl (Q w0))"
    by (rule isl_bindE_indep [OF 4 iA])
  have 2: "\<And>w. isl (bindE (D w) (\<lambda>w2. bindE (A w2) (\<lambda>w3. bindE (DP w3)
        (\<lambda>w4. bindE (P w4) Q))))
      = (isl (D w0) \<or> isl (A w0) \<or> isl (DP w0) \<or> isl (P w0) \<or> isl (Q w0))"
    by (rule isl_bindE_indep [OF 3 iD])
  have 1: "isl (bindE (T w0) (\<lambda>w1. bindE (D w1) (\<lambda>w2. bindE (A w2) (\<lambda>w3. bindE (DP w3)
        (\<lambda>w4. bindE (P w4) Q)))))
      = (isl (T w0) \<or> isl (D w0) \<or> isl (A w0) \<or> isl (DP w0) \<or> isl (P w0) \<or> isl (Q w0))"
    by (rule isl_bindE_indep [OF 2 refl])
  have app: "applyActions ops g sourceACI sourcePNI acts now =
      (if act_version acts = None \<or> act_version acts = Some 0
       then Inl (AssertionError ''Actions should have a new version'')
       else bindE (T w0) (\<lambda>w1. bindE (D w1) (\<lambda>w2. bindE (A w2) (\<lambda>w3. bindE (DP w3)
        (\<lambda>w4. bindE (P w4) Q)))))"
    unfolding applyActions_def w0_def T_def D_def A_def DP_def P_def Q_def
    by (simp add: assms bindE_simps assert_ok_def Let_def initialWork_accessControl)
  have a: "isl (applyActions ops g sourceACI sourcePNI acts now) \<longleftrightarrow>
      act_version acts = None \<or> act_version acts = Some 0 \<or>
      isl (T w0) \<or> isl (D w0) \<or> isl (A w0) \<or> isl (DP w0) \<or> isl (P w0) \<or> isl (Q w0)"
    unfolding app using 1 by auto
  from state_Inr [OF assms(1)] obtain cs where
    cs: "privChanges g = Some \<lparr>groupChanges = Some cs\<rparr>"
    by blast
  have m: "isl (fst (modify ops g sourceACI sourcePNI acts now)) \<longleftrightarrow>
      isl (applyActions ops g sourceACI sourcePNI acts now) \<or> version s = None"
    unfolding modify_def
    by (simp add: assms(1) cs Let_def split: sum.splits option.splits)
  show ?thesis
    unfolding m a by (simp add: w0_def T_def D_def A_def DP_def P_def Q_def)
qed

lemma zip_upt_snoc:
  "zip [n..<n + length (ys @ [x])] (map f (ys @ [x]))
     = zip [n..<n + length ys] (map f ys) @ [(n + length ys, f x)]"
  by simp

lemma foundMemberOids_snoc:
  "getMember g u = Inr (Some m) \<Longrightarrow>
   foundMemberOids g (ys @ [Some u]) = foundMemberOids g ys @ [fst m]"
  by (simp add: foundMemberOids_def map_filter_append)

lemma foundPendingOids_snoc:
  "getPendingMember g u = Inr (Some p) \<Longrightarrow>
   foundPendingOids g (ys @ [Some u]) = foundPendingOids g ys @ [fst p]"
  by (simp add: foundPendingOids_def map_filter_append)

lemma newPendingEntries_snoc:
  "newPendingEntries n src now (ys @ [a])
     = newPendingEntries n src now ys
       @ [(n + length ys,
           \<lparr>pm_member = Some \<lparr>userId = Option.bind (Option.bind a pm_member) userId,
                               role = Option.bind (Option.bind a pm_member) role,
                               profileKey = None, presentation = None\<rparr>,
            pm_addedByUserId = Some src, pm_timestamp = Some now\<rparr>)]"
  unfolding newPendingEntries_def by (simp only: zip_upt_snoc)

lemma newMemberEntries_snoc:
  "newMemberEntries n ops (ys @ [p])
     = newMemberEntries n ops ys
       @ [(n + length ys,
           \<lparr>userId = map_option (getUuidCiphertext ops) p, role = Some Role_DEFAULT,
            profileKey = map_option (getProfileKeyCiphertext ops) p, presentation = None\<rparr>)]"
  unfolding newMemberEntries_def by (simp only: zip_upt_snoc)


lemma applyActions_newState:
  assumes st: "state g = Inr s"
    and app: "applyActions ops g sourceACI sourcePNI acts now = Inr w"
  shows "newState w = nextSnapshot ops g s sourceACI sourcePNI acts now"
proof -
  let ?B = "s\<lparr>version := act_version acts,
               title := (case modifyTitle acts of None \<Rightarrow> title s | Some t \<Rightarrow> mt_title t)\<rparr>"
  let ?n = "nextOid g"
  let ?na = "nextOid g + length (addPendingMembers acts)"
  let ?np = "nextOid g + length (addPendingMembers acts) + length (promotePendingMembers acts)"
  from app obtain s' auth w1 w2 w3 w4 w5 where
    "act_version acts \<noteq> None" and "act_version acts \<noteq> Some 0" and
    s': "state g = Inr s'" and "getMember g sourceACI = Inr auth" and
    t: "modifyTitle_step (map_option snd auth) (accessControl s') (modifyTitle acts)
       (initialWork g s' sourceACI acts) = Inr w1" and
    d: "foldE (deleteMember_step ops g (map_option snd auth) (accessControl s'))
       (deleteMembers acts) w1 = Inr w2" and
    a: "foldE (addPendingMember_step (map_option snd auth) (accessControl s') sourceACI now)
       (addPendingMembers acts) w2 = Inr w3" and
    dp: "foldE (deletePendingMember_step g sourceACI sourcePNI) (deletePendingMembers acts) w3
       = Inr w4" and
    e: "foldE (promotePendingMember_step ops g sourceACI) (promotePendingMembers acts) w4
       = Inr w5" and
    f: "foldE (promotePniAci_step ops g sourceACI sourcePNI)
       (promoteMembersPendingPniAciProfileKey acts) w5 = Inr w"
    by (rule applyActions_Inr)
  from s' st have [simp]: "s' = s" by simp
  \<comment> \<open>the title\<close>
  have w1: "newState w1 = ?B" "w_nextOid w1 = ?n"
    using modifyTitle_step_Inr [OF t] by (cases s; auto simp: initialWork_def)+
  \<comment> \<open>the deletions of members\<close>
  let ?M = "\<lambda>ys. filter (\<lambda>entry. fst entry \<notin> set (foundMemberOids g ys)) (members s)"
  let ?ID = "\<lambda>ys u. newState u = ?B\<lparr>members := ?M ys\<rparr> \<and> w_nextOid u = ?n"
  have "?ID (deleteMembers acts) w2"
  proof (rule foldE_prefix [OF d, of ?ID])
    show "?ID [] w1" using w1 by (cases s) (simp add: foundMemberOids_def)
  next
    fix ys x u u'
    assume I: "?ID ys u"
      and "deleteMember_step ops g (map_option snd auth) (accessControl s') x u = Inr u'"
    from deleteMember_step_Inr [OF this(2)] obtain uid mem where
      x: "x = Some uid" "getMember g uid = Inr (Some mem)" and
      u': "u' = u\<lparr>newState := (newState u)
              \<lparr>members := filter (\<lambda>entry. fst entry \<noteq> fst mem) (members (newState u))\<rparr>,
            appliedActions := (appliedActions u)
              \<lparr>deleteMembers := deleteMembers (appliedActions u) @ [Some uid]\<rparr>\<rparr>"
      by blast
    show "?ID (ys @ [x]) u'"
      using I by (simp add: u' x(1) foundMemberOids_snoc [OF x(2)] conj_commute)
  qed
  then have w2: "newState w2 = ?B\<lparr>members := ?M (deleteMembers acts)\<rparr>" "w_nextOid w2 = ?n"
    by simp_all
  \<comment> \<open>the additions of pending members\<close>
  let ?IA = "\<lambda>ys u. newState u = ?B\<lparr>members := ?M (deleteMembers acts),
        membersPendingProfileKey :=
          membersPendingProfileKey s @ newPendingEntries ?n sourceACI now ys\<rparr> \<and>
      w_nextOid u = ?n + length ys"
  have "?IA (addPendingMembers acts) w3"
  proof (rule foldE_prefix [OF a, of ?IA])
    show "?IA [] w2" using w2 by (cases s) (simp add: newPendingEntries_def)
  next
    fix ys x u u'
    assume I: "?IA ys u"
      and "addPendingMember_step (map_option snd auth) (accessControl s') sourceACI now x u
             = Inr u'"
    from addPendingMember_step_Inr [OF this(2)] obtain added m uid r where
      x: "x = Some added" "pm_member added = Some m" "userId m = Some uid" "role m = Some r" and
      u': "u' = u\<lparr>newState := (newState u)
              \<lparr>membersPendingProfileKey := membersPendingProfileKey (newState u)
                 @ [(w_nextOid u,
                     \<lparr>pm_member = Some \<lparr>userId = Some uid, role = Some r,
                                        profileKey = None, presentation = None\<rparr>,
                      pm_addedByUserId = Some sourceACI, pm_timestamp = Some now\<rparr>)]\<rparr>,
            appliedActions := (appliedActions u)
              \<lparr>addPendingMembers := addPendingMembers (appliedActions u)
                 @ [Some \<lparr>pm_member = Some \<lparr>userId = Some uid, role = Some r,
                                        profileKey = None, presentation = None\<rparr>,
                      pm_addedByUserId = Some sourceACI, pm_timestamp = Some now\<rparr>]\<rparr>,
            w_nextOid := Suc (w_nextOid u)\<rparr>"
      by blast
    show "?IA (ys @ [x]) u'"
      using I by (simp add: u' x newPendingEntries_snoc)
  qed
  then have w3: "newState w3 = ?B\<lparr>members := ?M (deleteMembers acts),
        membersPendingProfileKey := membersPendingProfileKey s
          @ newPendingEntries ?n sourceACI now (addPendingMembers acts)\<rparr>"
      "w_nextOid w3 = ?na"
    by simp_all
  \<comment> \<open>the deletions of pending members\<close>
  let ?all = "membersPendingProfileKey s
          @ newPendingEntries ?n sourceACI now (addPendingMembers acts)"
  let ?P = "\<lambda>ds. filter (\<lambda>entry. fst entry \<notin> set (foundPendingOids g ds)) ?all"
  let ?IDP = "\<lambda>ys u. newState u = ?B\<lparr>members := ?M (deleteMembers acts),
        membersPendingProfileKey := ?P ys\<rparr> \<and> w_nextOid u = ?na"
  have "?IDP (deletePendingMembers acts) w4"
  proof (rule foldE_prefix [OF dp, of ?IDP])
    show "?IDP [] w3" using w3 by (simp add: foundPendingOids_def)
  next
    fix ys x u u'
    assume I: "?IDP ys u" and "deletePendingMember_step g sourceACI sourcePNI x u = Inr u'"
    from deletePendingMember_step_Inr [OF this(2)] obtain uid
      and pend :: "PendingMember obj" where
      x: "x = Some uid" "getPendingMember g uid = Inr (Some pend)" and
      u': "u' = u\<lparr>newState := (newState u)
              \<lparr>membersPendingProfileKey :=
                 filter (\<lambda>entry. fst entry \<noteq> fst pend)
                   (membersPendingProfileKey (newState u))\<rparr>,
            appliedActions := (appliedActions u)
              \<lparr>deletePendingMembers := deletePendingMembers (appliedActions u) @ [Some uid]\<rparr>\<rparr>"
      by blast
    show "?IDP (ys @ [x]) u'"
      using I by (simp add: u' x(1) foundPendingOids_snoc [OF x(2)] conj_commute)
  qed
  then have w4: "newState w4 = ?B\<lparr>members := ?M (deleteMembers acts),
        membersPendingProfileKey := ?P (deletePendingMembers acts)\<rparr>"
      "w_nextOid w4 = ?na"
    by simp_all
  \<comment> \<open>the promotions\<close>
  let ?IE = "\<lambda>(ys::PromotePendingMemberAction list) u.
      newState u = ?B\<lparr>members := ?M (deleteMembers acts)
          @ newMemberEntries ?na ops (map ppm_presentation ys),
        membersPendingProfileKey :=
          ?P (deletePendingMembers acts @ map (\<lambda>_. Some sourceACI) ys)\<rparr> \<and>
      w_nextOid u = ?na + length ys"
  have "?IE (promotePendingMembers acts) w5"
  proof (rule foldE_prefix [OF e, of ?IE])
    show "?IE [] w4" using w4 by (simp add: newMemberEntries_def)
  next
    fix ys x u u'
    assume I: "?IE ys u" and "promotePendingMember_step ops g sourceACI x u = Inr u'"
    from promotePendingMember_step_Inr [OF this(2)] obtain pres
      and pend :: "PendingMember obj" where
      x: "ppm_presentation x = Some pres" "getUuidCiphertext ops pres = sourceACI"
        "getPendingMember g sourceACI = Inr (Some pend)" and
      u': "u' = u\<lparr>newState := (newState u)
              \<lparr>membersPendingProfileKey :=
                 filter (\<lambda>entry. fst entry \<noteq> fst pend) (membersPendingProfileKey (newState u)),
               members := members (newState u)
                 @ [(w_nextOid u,
                     \<lparr>userId = Some sourceACI, role = Some Role_DEFAULT,
                      profileKey = Some (getProfileKeyCiphertext ops pres),
                      presentation = None\<rparr>)]\<rparr>,
            appliedActions := (appliedActions u)
              \<lparr>promotePendingMembers := promotePendingMembers (appliedActions u)
                 @ [\<lparr>ppm_presentation = None, ppm_userId = Some sourceACI,
                      ppm_profileKey = Some (getProfileKeyCiphertext ops pres)\<rparr>]\<rparr>,
            w_nextOid := Suc (w_nextOid u)\<rparr>"
      by blast
    have fp: "foundPendingOids g ((deletePendingMembers acts @ map (\<lambda>_. Some sourceACI) ys)
                                  @ [Some sourceACI])
        = foundPendingOids g (deletePendingMembers acts @ map (\<lambda>_. Some sourceACI) ys)
          @ [fst pend]"
      by (rule foundPendingOids_snoc [OF x(3)])
    have "filter (\<lambda>entry. fst entry \<noteq> fst pend)
            (?P (deletePendingMembers acts @ map (\<lambda>_. Some sourceACI) ys))
        = ?P (deletePendingMembers acts @ map (\<lambda>_. Some sourceACI) (ys @ [x]))"
      using fp by (simp add: conj_commute)
    moreover have "newMemberEntries ?na ops (map ppm_presentation (ys @ [x]))
        = newMemberEntries ?na ops (map ppm_presentation ys)
          @ [(?na + length ys,
              \<lparr>userId = Some sourceACI, role = Some Role_DEFAULT,
               profileKey = Some (getProfileKeyCiphertext ops pres), presentation = None\<rparr>)]"
      using newMemberEntries_snoc [of ?na ops "map ppm_presentation ys" "ppm_presentation x"] x
      by simp
    ultimately show "?IE (ys @ [x]) u'"
      using I by (simp add: u')
  qed
  then have w5: "newState w5 = ?B\<lparr>members := ?M (deleteMembers acts)
          @ newMemberEntries ?na ops (map ppm_presentation (promotePendingMembers acts)),
        membersPendingProfileKey :=
          ?P (deletePendingMembers acts
              @ map (\<lambda>_. Some sourceACI) (promotePendingMembers acts))\<rparr>"
      "w_nextOid w5 = ?np"
    by simp_all
  \<comment> \<open>the promotions across identity spaces\<close>
  let ?pp = "map ppm_presentation (promotePendingMembers acts)"
  let ?dd = "deletePendingMembers acts @ map (\<lambda>_. Some sourceACI) (promotePendingMembers acts)"
  let ?IF = "\<lambda>(ys::PromotePniAciAction list) u.
      newState u = ?B\<lparr>members := ?M (deleteMembers acts)
          @ newMemberEntries ?na ops (?pp @ map ppa_presentation ys),
        membersPendingProfileKey := ?P (?dd @ map (\<lambda>_. Some sourcePNI) ys)\<rparr> \<and>
      w_nextOid u = ?np + length ys"
  have "?IF (promoteMembersPendingPniAciProfileKey acts) w"
  proof (rule foldE_prefix [OF f, of ?IF])
    show "?IF [] w5" using w5 by simp
  next
    fix ys x u u'
    assume I: "?IF ys u" and "promotePniAci_step ops g sourceACI sourcePNI x u = Inr u'"
    from promotePniAci_step_Inr [OF this(2)] obtain pres
      and pend :: "PendingMember obj" where
      x: "ppa_presentation x = Some pres" "getUuidCiphertext ops pres = sourceACI"
        "getPendingMember g sourcePNI = Inr (Some pend)" and
      u': "u' = u\<lparr>newState := (newState u)
              \<lparr>membersPendingProfileKey :=
                 filter (\<lambda>entry. fst entry \<noteq> fst pend) (membersPendingProfileKey (newState u)),
               members := members (newState u)
                 @ [(w_nextOid u,
                     \<lparr>userId = Some sourceACI, role = Some Role_DEFAULT,
                      profileKey = Some (getProfileKeyCiphertext ops pres),
                      presentation = None\<rparr>)]\<rparr>,
            w_changeEpoch := max (w_changeEpoch u) 5,
            appliedActions := (appliedActions u)
              \<lparr>sourceUuid := Some sourcePNI,
               promoteMembersPendingPniAciProfileKey :=
                 promoteMembersPendingPniAciProfileKey (appliedActions u)
                 @ [\<lparr>ppa_presentation = None, ppa_userId = Some sourceACI,
                      ppa_pni = Some sourcePNI,
                      ppa_profileKey = Some (getProfileKeyCiphertext ops pres)\<rparr>]\<rparr>,
            w_nextOid := Suc (w_nextOid u)\<rparr>"
      by blast
    have fp: "foundPendingOids g ((?dd @ map (\<lambda>_. Some sourcePNI) ys) @ [Some sourcePNI])
        = foundPendingOids g (?dd @ map (\<lambda>_. Some sourcePNI) ys) @ [fst pend]"
      by (rule foundPendingOids_snoc [OF x(3)])
    have "filter (\<lambda>entry. fst entry \<noteq> fst pend) (?P (?dd @ map (\<lambda>_. Some sourcePNI) ys))
        = ?P (?dd @ map (\<lambda>_. Some sourcePNI) (ys @ [x]))"
      using fp by (simp add: conj_commute)
    moreover have "newMemberEntries ?na ops (?pp @ map ppa_presentation (ys @ [x]))
        = newMemberEntries ?na ops (?pp @ map ppa_presentation ys)
          @ [(?np + length ys,
              \<lparr>userId = Some sourceACI, role = Some Role_DEFAULT,
               profileKey = Some (getProfileKeyCiphertext ops pres), presentation = None\<rparr>)]"
      using newMemberEntries_snoc [of ?na ops "?pp @ map ppa_presentation ys" "ppa_presentation x"] x
      by simp
    ultimately show "?IF (ys @ [x]) u'"
      using I by (simp add: u')
  qed
  then show ?thesis
    by (simp add: nextSnapshot_def)
qed

text \<open>
  Claim C4, amended. The changes of the sub-actions of one call are made one after the
  other on the working copy, and a call that commits leaves the snapshot
  \<open>nextSnapshot\<close>: the committed snapshot with the version of the bundle and its title
  if it has one; the members without the entries found for the targets of the
  deletions, followed by one member of role DEFAULT for each promotion; the pending
  members followed by the entries added, without the entries found for the targets of
  the pending deletions, for the sender's ACI if there is a promotion, and for the
  sender's PNI if there is a promotion across identity spaces. But the checks of a
  sub-action (the access check against the acting member, and the lookups of
  \<^verbatim>\<open>getMember\<close> and \<^verbatim>\<open>getPendingMember\<close>, also those that find the entries to take out)
  are evaluated against the previously committed snapshot, not against the working
  copy. So a call of \<^verbatim>\<open>modify\<close> throws exactly when its version is absent or 0, or the
  sub-actions of one kind, run alone on the committed snapshot, throw, or the
  committed snapshot has no version; and a call that does not throw and has the
  committed version plus one commits.
\<close>

theorem checks_use_committed_snapshot:
  assumes "state g = Inr s" and "getMember g sourceACI = Inr found"
  shows "(isl (fst (modify ops g sourceACI sourcePNI acts now)) \<longleftrightarrow>
     act_version acts = None \<or> act_version acts = Some 0 \<or>
     isl (modifyTitle_step (map_option snd found) (accessControl s) (modifyTitle acts)
            (initialWork g s sourceACI acts)) \<or>
     isl (foldE (deleteMember_step ops g (map_option snd found) (accessControl s))
            (deleteMembers acts) (initialWork g s sourceACI acts)) \<or>
     isl (foldE (addPendingMember_step (map_option snd found) (accessControl s) sourceACI now)
            (addPendingMembers acts) (initialWork g s sourceACI acts)) \<or>
     isl (foldE (deletePendingMember_step g sourceACI sourcePNI)
            (deletePendingMembers acts) (initialWork g s sourceACI acts)) \<or>
     isl (foldE (promotePendingMember_step ops g sourceACI)
            (promotePendingMembers acts) (initialWork g s sourceACI acts)) \<or>
     isl (foldE (promotePniAci_step ops g sourceACI sourcePNI)
            (promoteMembersPendingPniAciProfileKey acts) (initialWork g s sourceACI acts)) \<or>
     version s = None) \<and>
    (\<forall>c g'. modify ops g sourceACI sourcePNI acts now = (Inr (Applied c), g') \<longrightarrow>
       state g' = Inr (nextSnapshot ops g s sourceACI sourcePNI acts now)) \<and>
    (version s = Some v \<and> act_version acts = Some (v + 1) \<and>
     \<not> isl (fst (modify ops g sourceACI sourcePNI acts now)) \<longrightarrow>
       (\<exists>c. fst (modify ops g sourceACI sourcePNI acts now) = Inr (Applied c)))"
proof (intro conjI allI impI)
  show "isl (fst (modify ops g sourceACI sourcePNI acts now)) \<longleftrightarrow>
     act_version acts = None \<or> act_version acts = Some 0 \<or>
     isl (modifyTitle_step (map_option snd found) (accessControl s) (modifyTitle acts)
            (initialWork g s sourceACI acts)) \<or>
     isl (foldE (deleteMember_step ops g (map_option snd found) (accessControl s))
            (deleteMembers acts) (initialWork g s sourceACI acts)) \<or>
     isl (foldE (addPendingMember_step (map_option snd found) (accessControl s) sourceACI now)
            (addPendingMembers acts) (initialWork g s sourceACI acts)) \<or>
     isl (foldE (deletePendingMember_step g sourceACI sourcePNI)
            (deletePendingMembers acts) (initialWork g s sourceACI acts)) \<or>
     isl (foldE (promotePendingMember_step ops g sourceACI)
            (promotePendingMembers acts) (initialWork g s sourceACI acts)) \<or>
     isl (foldE (promotePniAci_step ops g sourceACI sourcePNI)
            (promoteMembersPendingPniAciProfileKey acts) (initialWork g s sourceACI acts)) \<or>
     version s = None"
    by (rule modify_throws_iff [OF assms])
next
  fix c g'
  assume "modify ops g sourceACI sourcePNI acts now = (Inr (Applied c), g')"
  from modify_Applied [OF this] obtain w where
    w: "applyActions ops g sourceACI sourcePNI acts now = Inr w" "state g' = Inr (newState w)"
    by blast
  from applyActions_newState [OF assms(1) w(1)] w(2)
  show "state g' = Inr (nextSnapshot ops g s sourceACI sourcePNI acts now)" by simp
next
  assume a: "version s = Some v \<and> act_version acts = Some (v + 1) \<and>
     \<not> isl (fst (modify ops g sourceACI sourcePNI acts now))"
  from state_Inr [OF assms(1)] obtain cs where
    cs: "privChanges g = Some \<lparr>groupChanges = Some cs\<rparr>"
    by blast
  from a have "\<not> isl (applyActions ops g sourceACI sourcePNI acts now)"
    by (auto simp: modify_def split: sum.splits)
  then obtain w where "applyActions ops g sourceACI sourcePNI acts now = Inr w"
    by (cases "applyActions ops g sourceACI sourcePNI acts now") auto
  with a cs assms(1)
  show "\<exists>c. fst (modify ops g sourceACI sourcePNI acts now) = Inr (Applied c)"
    by (simp add: modify_def Let_def)
qed

text \<open>
  On the instance of the counterexample the promotion of \<open>[2]\<close>, run on the committed
  snapshot, throws; so does the call that deletes \<open>[2]\<close> first. On the toy instance
  whose administrator has invited \<open>[3]\<close>, the administrator's call with a new title,
  the deletion of \<open>[2]\<close> and the invitation of \<open>[4]\<close> commits and leaves the
  administrator as the only member and \<open>[3]\<close> and \<open>[4]\<close> pending.
\<close>

theorem checks_use_committed_snapshot_witness:
  "state (toyInvited [2]) = Inr (toyInvitedState [2]) \<and>
   getMember (toyInvited [2]) [2]
     = Inr (Some (2, \<lparr>userId = Some [2], role = Some Role_DEFAULT,
                       profileKey = Some [255, 2], presentation = None\<rparr>)) \<and>
   isl (foldE (promotePendingMember_step toyOps (toyInvited [2]) [2])
          (promotePendingMembers
             ((emptyActions 2)\<lparr>deleteMembers := [Some [2]],
                                promotePendingMembers := [toyPromote [2, 7]]\<rparr>))
          (initialWork (toyInvited [2]) (toyInvitedState [2]) [2]
             ((emptyActions 2)\<lparr>deleteMembers := [Some [2]],
                                promotePendingMembers := [toyPromote [2, 7]]\<rparr>))) \<and>
   isl (fst (modify toyOps (toyInvited [2]) [2] [9]
               ((emptyActions 2)\<lparr>deleteMembers := [Some [2]],
                                  promotePendingMembers := [toyPromote [2, 7]]\<rparr>) 10)) \<and>
   (\<exists>c. fst (modify toyOps (toyInvited [3]) [1] [9]
               ((emptyActions 2)\<lparr>modifyTitle := Some \<lparr>mt_title = Some [5]\<rparr>,
                                  deleteMembers := [Some [2]],
                                  addPendingMembers := [toyPending [4]]\<rparr>) 10)
          = Inr (Applied c)) \<and>
   state (snd (modify toyOps (toyInvited [3]) [1] [9]
                 ((emptyActions 2)\<lparr>modifyTitle := Some \<lparr>mt_title = Some [5]\<rparr>,
                                    deleteMembers := [Some [2]],
                                    addPendingMembers := [toyPending [4]]\<rparr>) 10))
     = Inr (nextSnapshot toyOps (toyInvited [3]) (toyInvitedState [3]) [1] [9]
              ((emptyActions 2)\<lparr>modifyTitle := Some \<lparr>mt_title = Some [5]\<rparr>,
                                 deleteMembers := [Some [2]],
                                 addPendingMembers := [toyPending [4]]\<rparr>) 10) \<and>
   title (nextSnapshot toyOps (toyInvited [3]) (toyInvitedState [3]) [1] [9]
              ((emptyActions 2)\<lparr>modifyTitle := Some \<lparr>mt_title = Some [5]\<rparr>,
                                 deleteMembers := [Some [2]],
                                 addPendingMembers := [toyPending [4]]\<rparr>) 10) = Some [5] \<and>
   memberIds (nextSnapshot toyOps (toyInvited [3]) (toyInvitedState [3]) [1] [9]
              ((emptyActions 2)\<lparr>modifyTitle := Some \<lparr>mt_title = Some [5]\<rparr>,
                                 deleteMembers := [Some [2]],
                                 addPendingMembers := [toyPending [4]]\<rparr>) 10) = [[1]] \<and>
   pendingIds (nextSnapshot toyOps (toyInvited [3]) (toyInvitedState [3]) [1] [9]
              ((emptyActions 2)\<lparr>modifyTitle := Some \<lparr>mt_title = Some [5]\<rparr>,
                                 deleteMembers := [Some [2]],
                                 addPendingMembers := [toyPending [4]]\<rparr>) 10) = [[3], [4]]"
proof -
  let ?G = "toyInvited [2]"
  let ?S = "toyInvitedState [2]"
  let ?A = "(emptyActions 2)\<lparr>deleteMembers := [Some [2]],
                             promotePendingMembers := [toyPromote [2, 7]]\<rparr>"
  let ?m = "(2::nat, \<lparr>userId = Some [2::8 word], role = Some Role_DEFAULT,
             profileKey = Some [255, 2::8 word], presentation = None\<rparr>)"
  have 1: "state ?G = Inr ?S" by code_simp
  have 2: "getMember ?G [2] = Inr (Some ?m)" by code_simp
  have "case foldE (promotePendingMember_step toyOps ?G [2]) (promotePendingMembers ?A)
               (initialWork ?G ?S [2] ?A) of Inl e \<Rightarrow> True | Inr w \<Rightarrow> False"
    by code_simp
  then have 3: "isl (foldE (promotePendingMember_step toyOps ?G [2]) (promotePendingMembers ?A)
               (initialWork ?G ?S [2] ?A))"
    by (simp split: sum.splits)
  from checks_use_committed_snapshot [OF 1 2, of toyOps "[9]" ?A 10, THEN conjunct1] 3
  have 4: "isl (fst (modify toyOps ?G [2] [9] ?A 10))" by blast
  let ?H = "toyInvited [3]"
  let ?T = "toyInvitedState [3]"
  let ?B = "(emptyActions 2)\<lparr>modifyTitle := Some \<lparr>mt_title = Some [5]\<rparr>,
                             deleteMembers := [Some [2]],
                             addPendingMembers := [toyPending [4]]\<rparr>"
  let ?a = "(1::nat, \<lparr>userId = Some [1::8 word], role = Some Role_ADMINISTRATOR,
             profileKey = Some [255, 1::8 word], presentation = None\<rparr>)"
  have 5: "state ?H = Inr ?T" by code_simp
  have 6: "getMember ?H [1] = Inr (Some ?a)" by code_simp
  have 7: "version ?T = Some 1 \<and> act_version ?B = Some (1 + 1)" by code_simp
  have "case fst (modify toyOps ?H [1] [9] ?B 10) of Inl e \<Rightarrow> False | Inr r \<Rightarrow> True"
    by code_simp
  then have 8: "\<not> isl (fst (modify toyOps ?H [1] [9] ?B 10))"
    by (simp split: sum.splits)
  note t = checks_use_committed_snapshot [OF 5 6, of toyOps "[9]" ?B 10 1]
  from t [THEN conjunct2, THEN conjunct2] 7 8
  obtain c where c: "fst (modify toyOps ?H [1] [9] ?B 10) = Inr (Applied c)" by blast
  then have "modify toyOps ?H [1] [9] ?B 10
      = (Inr (Applied c), snd (modify toyOps ?H [1] [9] ?B 10))"
    by (simp add: prod_eq_iff)
  with t [THEN conjunct2, THEN conjunct1]
  have 9: "state (snd (modify toyOps ?H [1] [9] ?B 10))
      = Inr (nextSnapshot toyOps ?H ?T [1] [9] ?B 10)"
    by blast
  have 10: "title (nextSnapshot toyOps ?H ?T [1] [9] ?B 10) = Some [5]" by code_simp
  have 11: "memberIds (nextSnapshot toyOps ?H ?T [1] [9] ?B 10) = [[1]]" by code_simp
  have 12: "pendingIds (nextSnapshot toyOps ?H ?T [1] [9] ?B 10) = [[3], [4]]" by code_simp
  from 1 2 3 4 c 9 10 11 12 show ?thesis by blast
qed

end
